theory Spec2Isabelle
  imports Main "HOL-Library.Sublist" "HOL-Library.AList"
begin

section \<open>Question processing: the orchestration engine of \<^verbatim>\<open>questions_processing.py\<close>\<close>

text \<open>
  A shallow embedding of the class \<^verbatim>\<open>QuestionsProcessor\<close>. Python objects that the
  class only passes around are values of small datatypes; exceptions are values of the
  type \<open>exn\<close> and a function that may raise returns \<open>exn + 'a\<close>; the attributes the
  class mutates (\<^verbatim>\<open>answer_details\<close>, \<^verbatim>\<open>response_data\<close>) are fields of a state
  record that is passed along explicitly. Retrieval, the answering service, the
  entity list and the regular-expression engine are parameters of the model.
\<close>

subsection \<open>Retrieved passages and the reference validator\<close>

text \<open>A retrieval result: the dictionary with the keys \<^verbatim>\<open>page\<close> and \<^verbatim>\<open>text\<close>.\<close>

record passage =
  page :: int
  passage_text :: string

text \<open>
  Python's \<^verbatim>\<open>xs[:k]\<close>: a negative stop counts from the end of the list and is
  clipped at the start.
\<close>

definition py_slice_to :: "'a list \<Rightarrow> int \<Rightarrow> 'a list" where
  "py_slice_to xs k =
     (if 0 \<le> k then take (nat k) xs else take (nat (int (length xs) + k)) xs)"

text \<open>
  The backfill loop of \<^verbatim>\<open>_validate_page_references\<close>: it walks the retrieval results
  in their order, appends every page that is not yet in \<^verbatim>\<open>existing_pages\<close>, and
  breaks as soon as an append brings the list to \<^verbatim>\<open>min_pages\<close> entries.
\<close>

fun backfill :: "int \<Rightarrow> passage list \<Rightarrow> int list \<Rightarrow> int set \<Rightarrow> int list" where
  "backfill min_pages [] validated_pages existing_pages = validated_pages"
| "backfill min_pages (result # rest) validated_pages existing_pages =
     (if page result \<notin> existing_pages then
        (let validated_pages' = validated_pages @ [page result];
             existing_pages' = insert (page result) existing_pages
         in if min_pages \<le> int (length validated_pages') then validated_pages'
            else backfill min_pages rest validated_pages' existing_pages')
      else backfill min_pages rest validated_pages existing_pages)"

text \<open>
  The list of \<^verbatim>\<open>_validate_page_references\<close> after the hallucination filter and the
  backfill, before it is trimmed: claimed pages first, backfilled pages after them.
  \<open>None\<close> is Python's \<^verbatim>\<open>None\<close> for \<^verbatim>\<open>claimed_pages\<close>.
\<close>

definition claimed_then_backfilled :: "int list option \<Rightarrow> passage list \<Rightarrow> int \<Rightarrow> int list" where
  "claimed_then_backfilled claimed_pages retrieval_results min_pages =
     (let claimed = (case claimed_pages of None \<Rightarrow> [] | Some ps \<Rightarrow> ps);
          retrieved_pages = map page retrieval_results;
          validated_pages = filter (\<lambda>p. p \<in> set retrieved_pages) claimed
      in if int (length validated_pages) < min_pages \<and> retrieval_results \<noteq> []
         then backfill min_pages retrieval_results validated_pages (set validated_pages)
         else validated_pages)"

definition validate_page_references ::
    "int list option \<Rightarrow> passage list \<Rightarrow> int \<Rightarrow> int \<Rightarrow> int list" where
  "validate_page_references claimed_pages retrieval_results min_pages max_pages =
     (let validated_pages = claimed_then_backfilled claimed_pages retrieval_results min_pages
      in if max_pages < int (length validated_pages)
         then py_slice_to validated_pages max_pages
         else validated_pages)"

text \<open>The defaults of the signature: \<^verbatim>\<open>min_pages=2\<close>, \<^verbatim>\<open>max_pages=8\<close>.\<close>

definition default_min_pages :: int where
  "default_min_pages = 2"

definition default_max_pages :: int where
  "default_max_pages = 8"

subsection \<open>Python values, exceptions and list indexing\<close>

text \<open>
  The values that travel through the dictionaries of the class. A float is kept as a
  mantissa and a binary exponent; nothing here computes with it.
\<close>

datatype pyval =
    PNone
  | PBool bool
  | PInt int
  | PFloat int int
  | PStr string
  | PList "pyval list"

text \<open>Python's truth value of an object.\<close>

fun truthy :: "pyval \<Rightarrow> bool" where
  "truthy PNone = False"
| "truthy (PBool b) = b"
| "truthy (PInt i) = (i \<noteq> 0)"
| "truthy (PFloat m e) = (m \<noteq> 0)"
| "truthy (PStr s) = (s \<noteq> [])"
| "truthy (PList l) = (l \<noteq> [])"

text \<open>\<^verbatim>\<open>a or b\<close>.\<close>

definition py_or :: "pyval \<Rightarrow> pyval \<Rightarrow> pyval" where
  "py_or a b = (if truthy a then a else b)"

text \<open>
  \<^verbatim>\<open>d.get(key)\<close> on a dictionary field: \<open>None\<close> is an absent key, and the lookup
  turns it into Python's \<^verbatim>\<open>None\<close>.
\<close>

definition dict_get :: "pyval option \<Rightarrow> pyval" where
  "dict_get field = (case field of None \<Rightarrow> PNone | Some v \<Rightarrow> v)"

text \<open>
  An exception is its class name (\<^verbatim>\<open>type(err).__name__\<close>) and its message
  (\<^verbatim>\<open>str(err)\<close>). The type stands for the subclasses of \<^verbatim>\<open>Exception\<close>.
\<close>

datatype exn = Exn (exn_kind: string) (exn_message: string)

definition ValueError :: "string \<Rightarrow> exn" where
  "ValueError msg = Exn ''ValueError'' msg"

definition IndexError :: "string \<Rightarrow> exn" where
  "IndexError msg = Exn ''IndexError'' msg"

text \<open>A text between apostrophes; \<^verbatim>\<open>str(KeyError(key))\<close> is the key in this form.\<close>

definition quoted :: "string \<Rightarrow> string" where
  "quoted t = [CHR 0x27] @ t @ [CHR 0x27]"

definition KeyError :: "string \<Rightarrow> exn" where
  "KeyError key = Exn ''KeyError'' (quoted key)"

definition AttributeError :: "string \<Rightarrow> exn" where
  "AttributeError msg = Exn ''AttributeError'' msg"

definition ZeroDivisionError :: "string \<Rightarrow> exn" where
  "ZeroDivisionError msg = Exn ''ZeroDivisionError'' msg"

text \<open>
  \<^verbatim>\<open>xs[i]\<close> and \<^verbatim>\<open>xs[i] = v\<close>: a negative index counts from the end, an index
  outside the list raises \<^verbatim>\<open>IndexError\<close>. \<open>py_index\<close> is the position an index
  stands for in a list of the given length.
\<close>

definition py_index :: "nat \<Rightarrow> int \<Rightarrow> nat option" where
  "py_index len i =
     (if 0 \<le> i then (if i < int len then Some (nat i) else None)
      else (if - int len \<le> i then Some (nat (int len + i)) else None))"

definition py_list_get :: "'a list \<Rightarrow> int \<Rightarrow> exn + 'a" where
  "py_list_get xs i =
     (case py_index (length xs) i of
        Some j \<Rightarrow> Inr (xs ! j)
      | None \<Rightarrow> Inl (IndexError ''list index out of range''))"

definition py_list_set :: "'a list \<Rightarrow> int \<Rightarrow> 'a \<Rightarrow> exn + 'a list" where
  "py_list_set xs i v =
     (case py_index (length xs) i of
        Some j \<Rightarrow> Inr (xs[j := v])
      | None \<Rightarrow> Inl (IndexError ''list assignment index out of range''))"

subsection \<open>Integers as text\<close>

text \<open>The character of a decimal digit.\<close>

definition digit_char :: "nat \<Rightarrow> char" where
  "digit_char d = ''0123456789'' ! d"

text \<open>\<^verbatim>\<open>str(n)\<close> of an integer, as an f-string formats it: decimal digits, a minus sign.\<close>

fun str_nat :: "nat \<Rightarrow> string" where
  "str_nat n = (if n < 10 then [digit_char n] else str_nat (n div 10) @ [digit_char (n mod 10)])"

declare str_nat.simps [simp del]

definition str_int :: "int \<Rightarrow> string" where
  "str_int i = (if i < 0 then CHR ''-'' # str_nat (nat (- i)) else str_nat (nat i))"

text \<open>
  \<^verbatim>\<open>int(s)\<close> of a string, base 10. Strings are over the code points below 256. The
  interpreter skips whitespace at both ends (the six ASCII whitespace characters; in a
  string that is not pure ASCII also the code points 0x85 and 0xA0), reads one optional
  sign, and then digits, where single underscores may stand between two digits.
  Anything else raises \<^verbatim>\<open>ValueError\<close>. The message is shortened: the interpreter
  appends the \<^verbatim>\<open>repr\<close> of the string, and no code here reads it. The interpreter's
  optional limit on the number of digits is left out.
\<close>

definition is_digit :: "char \<Rightarrow> bool" where
  "is_digit c = (48 \<le> (of_char c :: nat) \<and> (of_char c :: nat) \<le> 57)"

definition digit_value :: "char \<Rightarrow> int" where
  "digit_value c = int (of_char c) - 48"

definition is_ascii :: "string \<Rightarrow> bool" where
  "is_ascii s = list_all (\<lambda>c. (of_char c :: nat) < 128) s"

definition is_space :: "bool \<Rightarrow> char \<Rightarrow> bool" where
  "is_space ascii c =
     (c = CHR 0x20 \<or> c = CHR 0x09 \<or> c = CHR 0x0A \<or> c = CHR 0x0B \<or> c = CHR 0x0C \<or> c = CHR 0x0D
      \<or> (\<not> ascii \<and> (c = CHR 0x85 \<or> c = CHR 0xA0)))"

definition py_strip :: "string \<Rightarrow> string" where
  "py_strip s =
     rev (dropWhile (is_space (is_ascii s)) (rev (dropWhile (is_space (is_ascii s)) s)))"

text \<open>
  The digits of a literal: it starts and ends with a digit and no two underscores are
  adjacent.
\<close>

fun digits_ok :: "bool \<Rightarrow> string \<Rightarrow> bool" where
  "digits_ok after_digit [] = after_digit"
| "digits_ok after_digit (c # cs) =
     (if is_digit c then digits_ok True cs
      else if c = CHR ''_'' then after_digit \<and> digits_ok False cs
      else False)"

definition digits_value :: "string \<Rightarrow> int" where
  "digits_value ds = fold (\<lambda>c acc. 10 * acc + digit_value c) (filter is_digit ds) 0"

definition py_int :: "string \<Rightarrow> exn + int" where
  "py_int s =
     (let body = py_strip s;
          negative = (body \<noteq> [] \<and> hd body = CHR ''-'');
          signed = (body \<noteq> [] \<and> (hd body = CHR ''-'' \<or> hd body = CHR ''+''));
          ds = (if signed then tl body else body)
      in if digits_ok False ds
         then Inr (if negative then - digits_value ds else digits_value ds)
         else Inl (ValueError ''invalid literal for int() with base 10''))"

text \<open>\<^verbatim>\<open>s.split(sep)\<close> for a separator of one character.\<close>

fun py_split :: "char \<Rightarrow> string \<Rightarrow> string list" where
  "py_split sep [] = [[]]"
| "py_split sep (c # cs) =
     (if c = sep then [] # py_split sep cs
      else (case py_split sep cs of
              [] \<Rightarrow> [[c]]
            | w # ws \<Rightarrow> (c # w) # ws))"

text \<open>\<^verbatim>\<open>sep.join(parts)\<close>.\<close>

fun py_join :: "string \<Rightarrow> string list \<Rightarrow> string" where
  "py_join sep [] = []"
| "py_join sep [x] = x"
| "py_join sep (x # y # ys) = x @ sep @ py_join sep (y # ys)"

subsection \<open>The records of the pipeline\<close>

text \<open>An evidence reference, as \<^verbatim>\<open>_extract_references\<close> builds it.\<close>

record reference =
  pdf_sha1 :: string
  page_index :: int

text \<open>
  The dictionary the answering service returns. A field is \<open>None\<close> when the key is
  absent. \<^verbatim>\<open>relevant_pages\<close> holds a list of page numbers or Python's \<^verbatim>\<open>None\<close>.
\<close>

record answer_dict =
  ad_step_by_step_analysis :: "pyval option"
  ad_reasoning_summary :: "pyval option"
  ad_relevant_pages :: "int list option option"
  ad_final_answer :: "pyval option"
  ad_references :: "reference list option"
  ad_error :: "pyval option"

text \<open>
  An entry of \<^verbatim>\<open>answer_details\<close>: the record of an answer, or the record of a failure.
  Both carry their own handle under the key \<^verbatim>\<open>self\<close>.
\<close>

datatype answer_detail =
    Detail (step_by_step_analysis: pyval) (reasoning_summary: pyval)
      (relevant_pages: "int list option") (detail_response_data: pyval) (self: string)
  | ErrorDetail (error_traceback: string) (self: string)

text \<open>\<^verbatim>\<open>detail.get("step_by_step_analysis")\<close>.\<close>

fun get_step_by_step_analysis :: "answer_detail \<Rightarrow> pyval" where
  "get_step_by_step_analysis (Detail sbs rs rp rd ref) = sbs"
| "get_step_by_step_analysis (ErrorDetail tb ref) = PNone"

text \<open>
  An input question: the keys of the new pipeline (\<^verbatim>\<open>text\<close>, \<^verbatim>\<open>kind\<close>), of the
  legacy one (\<^verbatim>\<open>question\<close>, \<^verbatim>\<open>schema\<close>), and \<^verbatim>\<open>_question_index\<close>.
\<close>

record question_data =
  q_text :: "pyval option"
  q_kind :: "pyval option"
  q_question :: "pyval option"
  q_schema :: "pyval option"
  q_question_index :: "int option"

text \<open>
  A processed question: the dictionary \<^verbatim>\<open>_process_single_question\<close> returns, with the
  keys of both pipelines. \<open>r_answer_details\<close> is the \<^verbatim>\<open>$ref\<close> of the
  \<^verbatim>\<open>answer_details\<close> entry.
\<close>

record processed_question =
  r_question_text :: "pyval option"
  r_kind :: "pyval option"
  r_value :: "pyval option"
  r_references :: "reference list option"
  r_question :: "pyval option"
  r_schema :: "pyval option"
  r_answer :: "pyval option"
  r_error :: "pyval option"
  r_answer_details :: "string option"

record submission_answer =
  s_question_text :: pyval
  s_kind :: pyval
  s_value :: pyval
  s_references :: "reference list"
  s_reasoning_process :: "pyval option"

record statistics =
  total_questions :: int
  error_count :: int
  na_count :: int
  success_count :: int

text \<open>The dictionary of a run, also the content of the debug file.\<close>

record run_result =
  questions :: "processed_question list"
  out_answer_details :: "answer_detail option list"
  out_statistics :: statistics

record submission =
  answers :: "submission_answer list"
  team_email :: string
  submission_name :: string
  details :: string

text \<open>
  The attributes of the processor that its methods change: the ledger
  \<^verbatim>\<open>answer_details\<close>, \<^verbatim>\<open>response_data\<close> (\<open>None\<close> until it is first assigned), and the
  two files \<^verbatim>\<open>_save_progress\<close> writes.
\<close>

record state =
  answer_details :: "answer_detail option list"
  response_data :: "pyval option"
  debug_file :: "run_result option"
  submission_output :: "submission option"

text \<open>
  The state \<^verbatim>\<open>__init__\<close> leaves: an empty ledger, \<^verbatim>\<open>response_data\<close> not yet
  assigned, nothing written.
\<close>

definition initial_state :: state where
  "initial_state =
     \<lparr>answer_details = [], response_data = None, debug_file = None, submission_output = None\<rparr>"

text \<open>The constructor's arguments that the methods below read.\<close>

record config =
  new_challenge_pipeline :: bool
  full_context :: bool
  parallel_requests :: int
  subset_path :: "string option"

text \<open>The context handed to the answering service: a text, or the answers per company.\<close>

datatype rag_context =
    RagText string
  | RagAnswers "(string \<times> answer_dict) list"

text \<open>
  What the class calls and does not define: the entity scan over the subset file, the
  regular expression for quoted names, the retrievers, the answering service (an answer
  together with the \<^verbatim>\<open>response_data\<close> it leaves behind), the reader of the subset
  file (rows of company name and sha1) and the traceback formatter. Each may raise.
\<close>

record collaborators =
  extract_companies_from_subset :: "pyval \<Rightarrow> exn + string list"
  findall_quoted :: "pyval \<Rightarrow> exn + string list"
  retrieve_all :: "string \<Rightarrow> exn + passage list"
  retrieve_by_company_name :: "string \<Rightarrow> pyval \<Rightarrow> exn + passage list"
  get_answer_from_rag_context :: "pyval \<Rightarrow> rag_context \<Rightarrow> pyval \<Rightarrow> exn + (answer_dict \<times> pyval)"
  get_rephrased_questions :: "pyval \<Rightarrow> string list \<Rightarrow> exn + (string \<Rightarrow> pyval option)"
  read_csv :: "string \<Rightarrow> exn + (string \<times> string) list"
  format_exc :: "exn \<Rightarrow> string"

text \<open>
  The order in which concurrent workers complete is not fixed by the program. A
  schedule picks, from the tasks still pending, the one that completes next (the pick is
  taken modulo the number of pending tasks): one picker per batch of questions, named by
  the batch's first index, and one per comparative question.
\<close>

record schedule =
  worker_order :: "nat \<Rightarrow> nat list \<Rightarrow> nat"
  company_order :: "pyval \<Rightarrow> nat list \<Rightarrow> nat"

text \<open>The arguments of \<^verbatim>\<open>process_questions_list\<close> that \<^verbatim>\<open>_save_progress\<close> receives.\<close>

record output_options =
  output_path :: "string option"
  submission_file :: bool
  opt_team_email :: string
  opt_submission_name :: string
  pipeline_details :: string

subsection \<open>Thread pools\<close>

text \<open>
  A pool runs the calls it is given concurrently. In the model a call is one step: the
  calls of a pool happen one after the other, in an order that the schedule chooses,
  each on the state its predecessor left. Between the steps of one call as the program
  runs it, another worker can assign \<^verbatim>\<open>response_data\<close> and write its own slot of
  the ledger, nothing else; the value of \<^verbatim>\<open>response_data\<close> that a detail records is
  therefore the one part of the model's state that depends on this granularity.

  The completion order of the pending tasks under a picker; \<open>n\<close> is the number of
  pending tasks.
\<close>

fun completion_order :: "(nat list \<Rightarrow> nat) \<Rightarrow> nat \<Rightarrow> nat list \<Rightarrow> nat list" where
  "completion_order pick 0 pending = []"
| "completion_order pick (Suc n) pending =
     (if pending = [] then []
      else (let k = pick pending mod length pending
            in pending ! k # completion_order pick n (take k pending @ drop (Suc k) pending)))"

text \<open>
  The tasks run one after the other in the given order, each on the state the previous
  one left; the results come in that order.
\<close>

fun run_in_order :: "('a \<Rightarrow> 's \<Rightarrow> 'r \<times> 's) \<Rightarrow> 'a list \<Rightarrow> nat list \<Rightarrow> 's \<Rightarrow> 'r list \<times> 's" where
  "run_in_order f tasks [] s = ([], s)"
| "run_in_order f tasks (k # ks) s =
     (let (r, s1) = f (tasks ! k) s;
          (rs, s2) = run_in_order f tasks ks s1
      in (r # rs, s2))"

text \<open>
  \<^verbatim>\<open>executor.map(f, tasks)\<close>, consumed to the end: the workers complete in the order
  of the picker, and the result at position \<open>j\<close> is the result of the run of task
  \<open>j\<close>, wherever in the completion order that run was.
\<close>

definition executor_map ::
    "(nat list \<Rightarrow> nat) \<Rightarrow> ('a \<Rightarrow> 's \<Rightarrow> 'r \<times> 's) \<Rightarrow> 'a list \<Rightarrow> 's \<Rightarrow> 'r list \<times> 's" where
  "executor_map pick f tasks s =
     (let order = completion_order pick (length tasks) [0..<length tasks];
          (rs, s') = run_in_order f tasks order s
      in (map (\<lambda>j. rs ! length (takeWhile (\<lambda>k. k \<noteq> j) order)) [0..<length tasks], s'))"

text \<open>
  Reading the results of a pool in order: the first one that holds an exception raises
  it.
\<close>

fun first_raise :: "(exn + 'a) list \<Rightarrow> exn + 'a list" where
  "first_raise [] = Inr []"
| "first_raise (Inl e # rest) = Inl e"
| "first_raise (Inr v # rest) =
     (case first_raise rest of Inl e \<Rightarrow> Inl e | Inr vs \<Rightarrow> Inr (v # vs))"

subsection \<open>Answering one company\<close>

text \<open>\<^verbatim>\<open>_format_retrieval_results\<close>: the context text built from the passages.\<close>

definition format_retrieval_results :: "passage list \<Rightarrow> string" where
  "format_retrieval_results retrieval_results =
     (if retrieval_results = [] then []
      else py_join [CHR 0x0A, CHR 0x0A, CHR ''-'', CHR ''-'', CHR ''-'', CHR 0x0A, CHR 0x0A]
             (map (\<lambda>result.
                     ''Text retrieved from page '' @ str_int (page result) @ '': ''
                     @ [CHR 0x0A, CHR 0x22, CHR 0x22, CHR 0x22, CHR 0x0A]
                     @ passage_text result
                     @ [CHR 0x0A, CHR 0x22, CHR 0x22, CHR 0x22])
                retrieval_results))"

text \<open>
  \<^verbatim>\<open>_extract_references\<close>: the sha1 of the first row of the subset file with the
  company's name (the empty string when there is none), attached to every page.
\<close>

definition extract_references ::
    "config \<Rightarrow> collaborators \<Rightarrow> int list \<Rightarrow> string \<Rightarrow> exn + reference list" where
  "extract_references cfg col pages_list company_name =
     (case subset_path cfg of
        None \<Rightarrow> Inl (ValueError
          ''subset_path is required for new challenge pipeline when processing references.'')
      | Some path \<Rightarrow>
          (case read_csv col path of
             Inl e \<Rightarrow> Inl e
           | Inr companies_df \<Rightarrow>
               (let matching_rows = filter (\<lambda>row. fst row = company_name) companies_df;
                    company_sha1 = (if matching_rows = [] then [] else snd (hd matching_rows))
                in Inr (map (\<lambda>page. \<lparr>pdf_sha1 = company_sha1, page_index = page\<rparr>) pages_list))))"

definition get_answer_for_company ::
    "config \<Rightarrow> collaborators \<Rightarrow> string \<Rightarrow> pyval \<Rightarrow> pyval \<Rightarrow> state \<Rightarrow> (exn + answer_dict) \<times> state" where
  "get_answer_for_company cfg col company_name question schema s =
     (case (if full_context cfg then retrieve_all col company_name
            else retrieve_by_company_name col company_name question) of
        Inl e \<Rightarrow> (Inl e, s)
      | Inr retrieval_results \<Rightarrow>
          if retrieval_results = [] then (Inl (ValueError ''No relevant context found''), s)
          else
            (case get_answer_from_rag_context col question
                    (RagText (format_retrieval_results retrieval_results)) schema of
               Inl e \<Rightarrow> (Inl e, s)
             | Inr (answer, rd) \<Rightarrow>
                 (let s1 = s\<lparr>response_data := Some rd\<rparr>
                  in if new_challenge_pipeline cfg then
                       (let pages = (case ad_relevant_pages answer of None \<Rightarrow> Some [] | Some v \<Rightarrow> v);
                            validated_pages = validate_page_references pages retrieval_results
                                                default_min_pages default_max_pages
                        in case extract_references cfg col validated_pages company_name of
                             Inl e \<Rightarrow> (Inl e, s1)
                           | Inr refs \<Rightarrow>
                               (Inr (answer\<lparr>ad_relevant_pages := Some (Some validated_pages),
                                            ad_references := Some refs\<rparr>), s1))
                     else (Inr answer, s1))))"

subsection \<open>Comparative questions\<close>

text \<open>The helper \<^verbatim>\<open>process_company_question\<close> of \<^verbatim>\<open>process_comparative_question\<close>.\<close>

definition process_company_question ::
    "config \<Rightarrow> collaborators \<Rightarrow> (string \<Rightarrow> pyval option) \<Rightarrow> string \<Rightarrow> state
      \<Rightarrow> (exn + string \<times> answer_dict) \<times> state" where
  "process_company_question cfg col rephrased_questions company s =
     (let sub_question = dict_get (rephrased_questions company)
      in if \<not> truthy sub_question
         then (Inl (ValueError (''Could not generate sub-question for company: '' @ company)), s)
         else (case get_answer_for_company cfg col company sub_question (PStr ''number'') s of
                 (Inl e, s1) \<Rightarrow> (Inl e, s1)
               | (Inr answer, s1) \<Rightarrow> (Inr (company, answer), s1)))"

text \<open>
  The loop over \<^verbatim>\<open>as_completed\<close>: the results are read in completion order; an
  exception is raised again, a result is stored under its company and its references
  are appended.
\<close>

fun gather_completed ::
    "(exn + string \<times> answer_dict) list \<Rightarrow> (string \<times> answer_dict) list \<Rightarrow> reference list
      \<Rightarrow> exn + (string \<times> answer_dict) list \<times> reference list" where
  "gather_completed [] individual_answers aggregated_references =
     Inr (individual_answers, aggregated_references)"
| "gather_completed (Inl e # rest) individual_answers aggregated_references = Inl e"
| "gather_completed (Inr (company, answer) # rest) individual_answers aggregated_references =
     gather_completed rest (AList.update company answer individual_answers)
       (aggregated_references @ (case ad_references answer of None \<Rightarrow> [] | Some refs \<Rightarrow> refs))"

text \<open>The dictionary keyed by sha1 and page that removes duplicate references.\<close>

definition unique_references :: "reference list \<Rightarrow> reference list" where
  "unique_references aggregated_references =
     map snd (fold (\<lambda>ref unique_refs. AList.update (pdf_sha1 ref, page_index ref) ref unique_refs)
                aggregated_references [])"

definition process_comparative_question ::
    "config \<Rightarrow> collaborators \<Rightarrow> schedule \<Rightarrow> pyval \<Rightarrow> string list \<Rightarrow> pyval \<Rightarrow> state
      \<Rightarrow> (exn + answer_dict) \<times> state" where
  "process_comparative_question cfg col sch question companies schema s =
     (case get_rephrased_questions col question companies of
        Inl e \<Rightarrow> (Inl e, s)
      | Inr rephrased_questions \<Rightarrow>
          (let order = completion_order (company_order sch question) (length companies)
                         [0..<length companies];
               (completed, s1) = run_in_order (process_company_question cfg col rephrased_questions)
                                   companies order s
           in case gather_completed completed [] [] of
                Inl e \<Rightarrow> (Inl e, s1)
              | Inr (individual_answers, aggregated_references) \<Rightarrow>
                  (case get_answer_from_rag_context col question (RagAnswers individual_answers)
                          (PStr ''comparative'') of
                     Inl e \<Rightarrow> (Inl e, s1)
                   | Inr (comparative_answer, rd) \<Rightarrow>
                       (Inr (comparative_answer
                               \<lparr>ad_references := Some (unique_references aggregated_references)\<rparr>),
                        s1\<lparr>response_data := Some rd\<rparr>))))"

subsection \<open>One question\<close>

definition process_question ::
    "config \<Rightarrow> collaborators \<Rightarrow> schedule \<Rightarrow> pyval \<Rightarrow> pyval \<Rightarrow> state \<Rightarrow> (exn + answer_dict) \<times> state" where
  "process_question cfg col sch question schema s =
     (case (if new_challenge_pipeline cfg then extract_companies_from_subset col question
            else findall_quoted col question) of
        Inl e \<Rightarrow> (Inl e, s)
      | Inr extracted_companies \<Rightarrow>
          if length extracted_companies = 0
          then (Inl (ValueError ''No company name found in the question.''), s)
          else if length extracted_companies = 1
          then get_answer_for_company cfg col (hd extracted_companies) question schema s
          else process_comparative_question cfg col sch question extracted_companies schema s)"

text \<open>The handle of the answer detail of a question index.\<close>

definition ref_id :: "int \<Rightarrow> string" where
  "ref_id question_index = ''#/answer_details/'' @ str_int question_index"

text \<open>
  \<^verbatim>\<open>_create_answer_detail_ref\<close>: the three keys are read with a subscript (a missing
  key raises \<^verbatim>\<open>KeyError\<close>), then the attribute \<^verbatim>\<open>response_data\<close> (unset: an
  \<^verbatim>\<open>AttributeError\<close>), then the ledger is written at the question's index.
\<close>

definition create_answer_detail_ref ::
    "answer_dict \<Rightarrow> int \<Rightarrow> state \<Rightarrow> (exn + string) \<times> state" where
  "create_answer_detail_ref answer question_index s =
     (case ad_step_by_step_analysis answer of
        None \<Rightarrow> (Inl (KeyError ''step_by_step_analysis''), s)
      | Some sbs \<Rightarrow>
     (case ad_reasoning_summary answer of
        None \<Rightarrow> (Inl (KeyError ''reasoning_summary''), s)
      | Some summary \<Rightarrow>
     (case ad_relevant_pages answer of
        None \<Rightarrow> (Inl (KeyError ''relevant_pages''), s)
      | Some pages \<Rightarrow>
     (case response_data s of
        None \<Rightarrow> (Inl (AttributeError
          (quoted ''QuestionsProcessor'' @ '' object has no attribute ''
           @ quoted ''response_data'')), s)
      | Some rd \<Rightarrow>
     (case py_list_set (answer_details s) question_index
             (Some (Detail sbs summary pages rd (ref_id question_index))) of
        Inl e \<Rightarrow> (Inl e, s)
      | Inr ledger \<Rightarrow> (Inr (ref_id question_index), s\<lparr>answer_details := ledger\<rparr>))))))"

text \<open>A dictionary without keys.\<close>

definition empty_result :: processed_question where
  "empty_result =
     \<lparr>r_question_text = None, r_kind = None, r_value = None, r_references = None,
      r_question = None, r_schema = None, r_answer = None, r_error = None,
      r_answer_details = None\<rparr>"

text \<open>
  The two values \<^verbatim>\<open>_handle_processing_error\<close> builds: the error detail for the
  ledger, and the error result, whose \<^verbatim>\<open>error\<close> is the class name of the exception,
  a colon and its message. The result of the legacy pipeline has no \<^verbatim>\<open>references\<close>
  key.
\<close>

definition error_detail :: "collaborators \<Rightarrow> exn \<Rightarrow> int \<Rightarrow> answer_detail" where
  "error_detail col err question_index = ErrorDetail (format_exc col err) (ref_id question_index)"

definition error_result :: "config \<Rightarrow> pyval \<Rightarrow> pyval \<Rightarrow> exn \<Rightarrow> int \<Rightarrow> processed_question" where
  "error_result cfg question_text schema err question_index =
     (if new_challenge_pipeline cfg then
        empty_result
          \<lparr>r_question_text := Some question_text, r_kind := Some schema,
           r_value := Some PNone, r_references := Some [],
           r_error := Some (PStr (exn_kind err @ '': '' @ exn_message err)),
           r_answer_details := Some (ref_id question_index)\<rparr>
      else
        empty_result
          \<lparr>r_question := Some question_text, r_schema := Some schema,
           r_answer := Some PNone,
           r_error := Some (PStr (exn_kind err @ '': '' @ exn_message err)),
           r_answer_details := Some (ref_id question_index)\<rparr>)"

text \<open>
  \<^verbatim>\<open>_handle_processing_error\<close>: the error detail is written to the ledger at the
  question's index (outside any \<^verbatim>\<open>try\<close>), and the error result is returned.
\<close>

definition handle_processing_error ::
    "config \<Rightarrow> collaborators \<Rightarrow> pyval \<Rightarrow> pyval \<Rightarrow> exn \<Rightarrow> int \<Rightarrow> state
      \<Rightarrow> (exn + processed_question) \<times> state" where
  "handle_processing_error cfg col question_text schema err question_index s =
     (case py_list_set (answer_details s) question_index
             (Some (error_detail col err question_index)) of
        Inl e \<Rightarrow> (Inl e, s)
      | Inr ledger \<Rightarrow>
          (Inr (error_result cfg question_text schema err question_index),
           s\<lparr>answer_details := ledger\<rparr>))"

text \<open>The body of the \<^verbatim>\<open>try\<close> block of \<^verbatim>\<open>_process_single_question\<close>.\<close>

definition try_process_single_question ::
    "config \<Rightarrow> collaborators \<Rightarrow> schedule \<Rightarrow> pyval \<Rightarrow> pyval \<Rightarrow> int \<Rightarrow> state
      \<Rightarrow> (exn + processed_question) \<times> state" where
  "try_process_single_question cfg col sch question_text schema question_index s =
     (case process_question cfg col sch question_text schema s of
        (Inl e, s1) \<Rightarrow> (Inl e, s1)
      | (Inr answer, s1) \<Rightarrow>
          if ad_error answer \<noteq> None then
            (case create_answer_detail_ref
                    \<lparr>ad_step_by_step_analysis = Some PNone, ad_reasoning_summary = Some PNone,
                     ad_relevant_pages = Some None, ad_final_answer = None,
                     ad_references = None, ad_error = None\<rparr> question_index s1 of
               (Inl e, s2) \<Rightarrow> (Inl e, s2)
             | (Inr detail_ref, s2) \<Rightarrow>
                 (Inr (if new_challenge_pipeline cfg then
                         empty_result
                           \<lparr>r_question_text := Some question_text, r_kind := Some schema,
                            r_value := Some PNone, r_references := Some [],
                            r_error := Some (dict_get (ad_error answer)),
                            r_answer_details := Some detail_ref\<rparr>
                       else
                         empty_result
                           \<lparr>r_question := Some question_text, r_schema := Some schema,
                            r_answer := Some PNone,
                            r_error := Some (dict_get (ad_error answer)),
                            r_answer_details := Some detail_ref\<rparr>), s2))
          else
            (case create_answer_detail_ref answer question_index s1 of
               (Inl e, s2) \<Rightarrow> (Inl e, s2)
             | (Inr detail_ref, s2) \<Rightarrow>
                 (Inr (if new_challenge_pipeline cfg then
                         empty_result
                           \<lparr>r_question_text := Some question_text, r_kind := Some schema,
                            r_value := Some (dict_get (ad_final_answer answer)),
                            r_references := Some (case ad_references answer of
                                                    None \<Rightarrow> [] | Some refs \<Rightarrow> refs),
                            r_answer_details := Some detail_ref\<rparr>
                       else
                         empty_result
                           \<lparr>r_question := Some question_text, r_schema := Some schema,
                            r_answer := Some (dict_get (ad_final_answer answer)),
                            r_answer_details := Some detail_ref\<rparr>), s2)))"

text \<open>
  What \<^verbatim>\<open>_process_single_question\<close> reads from the question first: the index
  (\<^verbatim>\<open>question_data.get("_question_index", 0)\<close>), and the text and the schema under the
  keys of the pipeline in use.
\<close>

definition question_index_of :: "question_data \<Rightarrow> int" where
  "question_index_of qd = (case q_question_index qd of None \<Rightarrow> 0 | Some i \<Rightarrow> i)"

definition question_text_of :: "config \<Rightarrow> question_data \<Rightarrow> pyval" where
  "question_text_of cfg qd =
     (if new_challenge_pipeline cfg then dict_get (q_text qd) else dict_get (q_question qd))"

definition schema_of :: "config \<Rightarrow> question_data \<Rightarrow> pyval" where
  "schema_of cfg qd =
     (if new_challenge_pipeline cfg then dict_get (q_kind qd) else dict_get (q_schema qd))"

text \<open>
  \<^verbatim>\<open>_process_single_question\<close>: whatever the \<^verbatim>\<open>try\<close> block raises goes to
  \<^verbatim>\<open>_handle_processing_error\<close>, which runs outside the block.
\<close>

definition process_single_question ::
    "config \<Rightarrow> collaborators \<Rightarrow> schedule \<Rightarrow> question_data \<Rightarrow> state
      \<Rightarrow> (exn + processed_question) \<times> state" where
  "process_single_question cfg col sch qd s =
     (case try_process_single_question cfg col sch (question_text_of cfg qd) (schema_of cfg qd)
             (question_index_of qd) s of
        (Inl err, s1) \<Rightarrow>
          handle_processing_error cfg col (question_text_of cfg qd) (schema_of cfg qd) err
            (question_index_of qd) s1
      | (Inr result, s1) \<Rightarrow> (Inr result, s1))"

subsection \<open>Statistics and the submission format\<close>

text \<open>
  The value of a processed question as the statistics and the export read it:
  \<^verbatim>\<open>q.get("value") if "value" in q else q.get("answer")\<close>.
\<close>

definition result_value :: "processed_question \<Rightarrow> pyval" where
  "result_value q = (if r_value q \<noteq> None then dict_get (r_value q) else dict_get (r_answer q))"

text \<open>
  \<^verbatim>\<open>_calculate_statistics\<close>. The counts are sums of ones over the results that
  qualify. With \<^verbatim>\<open>print_stats\<close> the percentages are printed, each a division by the
  total, which raises \<^verbatim>\<open>ZeroDivisionError\<close> for an empty list.
\<close>

definition calculate_statistics :: "processed_question list \<Rightarrow> bool \<Rightarrow> exn + statistics" where
  "calculate_statistics processed_questions print_stats =
     (let total = int (length processed_questions);
          errors = sum_list (map (\<lambda>q. 1) (filter (\<lambda>q. r_error q \<noteq> None) processed_questions));
          na = sum_list (map (\<lambda>q. 1)
                 (filter (\<lambda>q. result_value q = PStr ''N/A'') processed_questions));
          success = total - errors - na
      in if print_stats \<and> total = 0 then Inl (ZeroDivisionError ''division by zero'')
         else Inr \<lparr>total_questions = total, error_count = errors, na_count = na,
                   success_count = success\<rparr>)"

text \<open>
  The \<^verbatim>\<open>try\<close> block of \<^verbatim>\<open>_post_process_submission_answers\<close> that resolves a handle:
  the text after the last slash is read as an integer, and the ledger entry at that
  index, when the index is in range and the entry is filled, gives its
  \<^verbatim>\<open>step_by_step_analysis\<close>.
\<close>

definition try_resolve :: "answer_detail option list \<Rightarrow> string \<Rightarrow> exn + pyval" where
  "try_resolve ledger answer_details_ref =
     (case py_list_get (py_split CHR ''/'' answer_details_ref) (- 1) of
        Inl e \<Rightarrow> Inl e
      | Inr last_part \<Rightarrow>
          (case py_int last_part of
             Inl e \<Rightarrow> Inl e
           | Inr index \<Rightarrow>
               if 0 \<le> index \<and> index < int (length ledger) then
                 (case py_list_get ledger index of
                    Inl e \<Rightarrow> Inl e
                  | Inr None \<Rightarrow> Inr PNone
                  | Inr (Some detail) \<Rightarrow> Inr (get_step_by_step_analysis detail))
               else Inr PNone))"

text \<open>
  The resolution of a handle with its guard and its \<^verbatim>\<open>except\<close> clause, which
  swallows \<^verbatim>\<open>ValueError\<close> and \<^verbatim>\<open>IndexError\<close> and lets anything else through.
\<close>

definition resolve_step_by_step_analysis ::
    "answer_detail option list \<Rightarrow> string \<Rightarrow> exn + pyval" where
  "resolve_step_by_step_analysis ledger answer_details_ref =
     (if answer_details_ref \<noteq> [] \<and> prefix ''#/answer_details/'' answer_details_ref then
        (case try_resolve ledger answer_details_ref of
           Inl e \<Rightarrow>
             if exn_kind e = ''ValueError'' \<or> exn_kind e = ''IndexError'' then Inr PNone
             else Inl e
         | Inr v \<Rightarrow> Inr v)
      else Inr PNone)"

text \<open>The body of the loop of \<^verbatim>\<open>_post_process_submission_answers\<close>.\<close>

definition post_process_one ::
    "answer_detail option list \<Rightarrow> processed_question \<Rightarrow> exn + submission_answer" where
  "post_process_one ledger q =
     (let question_text = py_or (dict_get (r_question_text q)) (dict_get (r_question q));
          kind = py_or (dict_get (r_kind q)) (dict_get (r_schema q));
          value = (if r_error q \<noteq> None then PStr ''N/A'' else result_value q);
          references = (case r_references q of None \<Rightarrow> [] | Some refs \<Rightarrow> refs);
          answer_details_ref = (case r_answer_details q of None \<Rightarrow> [] | Some r \<Rightarrow> r)
      in case resolve_step_by_step_analysis ledger answer_details_ref of
           Inl e \<Rightarrow> Inl e
         | Inr sbs \<Rightarrow>
             Inr \<lparr>s_question_text = question_text, s_kind = kind, s_value = value,
                  s_references =
                    (if value = PStr ''N/A'' then []
                     else map (\<lambda>ref. \<lparr>pdf_sha1 = pdf_sha1 ref, page_index = page_index ref - 1\<rparr>)
                            references),
                  s_reasoning_process = (if truthy sbs then Some sbs else None)\<rparr>)"

fun post_process_loop ::
    "answer_detail option list \<Rightarrow> processed_question list \<Rightarrow> submission_answer list
      \<Rightarrow> exn + submission_answer list" where
  "post_process_loop ledger [] submission_answers = Inr submission_answers"
| "post_process_loop ledger (q # rest) submission_answers =
     (case post_process_one ledger q of
        Inl e \<Rightarrow> Inl e
      | Inr submission_answer \<Rightarrow>
          post_process_loop ledger rest (submission_answers @ [submission_answer]))"

definition post_process_submission_answers ::
    "answer_detail option list \<Rightarrow> processed_question list \<Rightarrow> exn + submission_answer list" where
  "post_process_submission_answers ledger processed_questions =
     post_process_loop ledger processed_questions []"

subsection \<open>Saving progress and running a list of questions\<close>

text \<open>\<^verbatim>\<open>if output_path:\<close> for a path that is a string or \<^verbatim>\<open>None\<close>.\<close>

definition path_given :: "string option \<Rightarrow> bool" where
  "path_given path = (case path of None \<Rightarrow> False | Some p \<Rightarrow> p \<noteq> [])"

text \<open>
  \<^verbatim>\<open>_save_progress\<close>: the debug file receives the results, the ledger and fresh
  statistics; the submission file, when asked for, the post-processed answers. Writing
  a file is taken to succeed.
\<close>

definition save_progress ::
    "processed_question list \<Rightarrow> output_options \<Rightarrow> state \<Rightarrow> (exn + unit) \<times> state" where
  "save_progress processed_questions opts s =
     (if path_given (output_path opts) then
        (case calculate_statistics processed_questions False of
           Inl e \<Rightarrow> (Inl e, s)
         | Inr stats \<Rightarrow>
             (let result = \<lparr>questions = processed_questions,
                            out_answer_details = answer_details s,
                            out_statistics = stats\<rparr>;
                  s1 = s\<lparr>debug_file := Some result\<rparr>
              in if submission_file opts then
                   (case post_process_submission_answers (answer_details s1) processed_questions of
                      Inl e \<Rightarrow> (Inl e, s1)
                    | Inr submission_answers \<Rightarrow>
                        (Inr (),
                         s1\<lparr>submission_output :=
                              Some \<lparr>answers = submission_answers,
                                    team_email = opt_team_email opts,
                                    submission_name = opt_submission_name opts,
                                    details = pipeline_details opts\<rparr>\<rparr>))
                 else (Inr (), s1)))
      else (Inr (), s))"

text \<open>The sequential loop of \<^verbatim>\<open>process_questions_list\<close>.\<close>

fun sequential_loop ::
    "config \<Rightarrow> collaborators \<Rightarrow> schedule \<Rightarrow> output_options \<Rightarrow> question_data list
      \<Rightarrow> processed_question list \<Rightarrow> state \<Rightarrow> (exn + processed_question list) \<times> state" where
  "sequential_loop cfg col sch opts [] processed_questions s = (Inr processed_questions, s)"
| "sequential_loop cfg col sch opts (qd # rest) processed_questions s =
     (case process_single_question cfg col sch qd s of
        (Inl e, s1) \<Rightarrow> (Inl e, s1)
      | (Inr processed_question, s1) \<Rightarrow>
          (let processed_questions' = processed_questions @ [processed_question]
           in case (if path_given (output_path opts)
                    then save_progress processed_questions' opts s1 else (Inr (), s1)) of
                (Inl e, s2) \<Rightarrow> (Inl e, s2)
              | (Inr u, s2) \<Rightarrow> sequential_loop cfg col sch opts rest processed_questions' s2))"

text \<open>
  \<^verbatim>\<open>range(0, stop, step)\<close> for a step above zero, as the multiples of the step below
  \<open>stop\<close>. The caller's step is above one; for the step zero, where Python raises, the
  list is empty.
\<close>

definition py_range_step :: "nat \<Rightarrow> nat \<Rightarrow> nat list" where
  "py_range_step stop step = map (\<lambda>k. k * step) [0..<(stop + step - 1) div step]"

text \<open>
  The loop over the batches: each batch is a slice of the indexed questions, run on a
  pool of its own; its results are appended in the order of the slice.
\<close>

fun batch_loop ::
    "config \<Rightarrow> collaborators \<Rightarrow> schedule \<Rightarrow> output_options \<Rightarrow> question_data list \<Rightarrow> nat
      \<Rightarrow> nat list \<Rightarrow> processed_question list \<Rightarrow> state
      \<Rightarrow> (exn + processed_question list) \<times> state" where
  "batch_loop cfg col sch opts questions_with_index parallel_threads [] processed_questions s =
     (Inr processed_questions, s)"
| "batch_loop cfg col sch opts questions_with_index parallel_threads (i # rest)
       processed_questions s =
     (let batch = take parallel_threads (drop i questions_with_index);
          (outcomes, s1) = executor_map (worker_order sch i)
                             (process_single_question cfg col sch) batch s
      in case first_raise outcomes of
           Inl e \<Rightarrow> (Inl e, s1)
         | Inr batch_results \<Rightarrow>
             (let processed_questions' = processed_questions @ batch_results
              in case (if path_given (output_path opts)
                       then save_progress processed_questions' opts s1 else (Inr (), s1)) of
                   (Inl e, s2) \<Rightarrow> (Inl e, s2)
                 | (Inr u, s2) \<Rightarrow>
                     batch_loop cfg col sch opts questions_with_index parallel_threads rest
                       processed_questions' s2))"

text \<open>
  The comprehension of \<^verbatim>\<open>process_questions_list\<close> that gives every question its
  position under the key \<^verbatim>\<open>_question_index\<close>.
\<close>

definition with_index :: "question_data list \<Rightarrow> question_data list" where
  "with_index questions_list =
     map (\<lambda>(i, q). q\<lparr>q_question_index := Some (int i)\<rparr>) (enumerate 0 questions_list)"

definition process_questions_list ::
    "config \<Rightarrow> collaborators \<Rightarrow> schedule \<Rightarrow> question_data list \<Rightarrow> output_options \<Rightarrow> state
      \<Rightarrow> (exn + run_result) \<times> state" where
  "process_questions_list cfg col sch questions_list opts s =
     (let total = length questions_list;
          questions_with_index = with_index questions_list;
          s0 = s\<lparr>answer_details := replicate total None\<rparr>;
          parallel_threads = parallel_requests cfg
      in case (if parallel_threads \<le> 1
               then sequential_loop cfg col sch opts questions_with_index [] s0
               else batch_loop cfg col sch opts questions_with_index (nat parallel_threads)
                      (py_range_step total (nat parallel_threads)) [] s0) of
           (Inl e, s1) \<Rightarrow> (Inl e, s1)
         | (Inr processed_questions, s1) \<Rightarrow>
             (case calculate_statistics processed_questions True of
                Inl e \<Rightarrow> (Inl e, s1)
              | Inr stats \<Rightarrow>
                  (Inr \<lparr>questions = processed_questions,
                        out_answer_details = answer_details s1,
                        out_statistics = stats\<rparr>, s1)))"

subsection \<open>Sample data\<close>

text \<open>Sample retrieval results with the pages 2, 3, 4 and 5, in relevance order.\<close>

definition example_passages :: "passage list" where
  "example_passages =
     [\<lparr>page = 2, passage_text = ''b''\<rparr>, \<lparr>page = 3, passage_text = ''c''\<rparr>,
      \<lparr>page = 4, passage_text = ''d''\<rparr>, \<lparr>page = 5, passage_text = ''e''\<rparr>]"

text \<open>Ten retrieval results with the pages 1 to 10.\<close>

definition ten_passages :: "passage list" where
  "ten_passages = map (\<lambda>p. \<lparr>page = p, passage_text = ''t''\<rparr>) [1, 2, 3, 4, 5, 6, 7, 8, 9, 10]"

text \<open>Sample data: an answer detail for index 0 and three processed questions.\<close>

definition sample_detail :: answer_detail where
  "sample_detail = Detail (PStr ''analysis'') (PStr ''summary'') (Some [1]) PNone (ref_id 0)"

definition answered_result :: processed_question where
  "answered_result =
     empty_result\<lparr>r_question_text := Some (PStr ''q''), r_kind := Some (PStr ''number''),
       r_value := Some (PInt 7),
       r_references := Some [\<lparr>pdf_sha1 = ''abc'', page_index = 1\<rparr>],
       r_answer_details := Some (ref_id 0)\<rparr>"

definition na_result :: processed_question where
  "na_result = answered_result\<lparr>r_value := Some (PStr ''N/A'')\<rparr>"

definition failed_result :: processed_question where
  "failed_result =
     answered_result\<lparr>r_value := Some PNone, r_error := Some (PStr ''ValueError: no'')\<rparr>"

text \<open>
  Sample collaborators: two companies are known, passages are retrieved for the first
  only, the answering service always gives the same answer; a configuration, a schedule
  that lets the second pending worker complete first, and three questions.
\<close>

definition sample_answer :: answer_dict where
  "sample_answer =
     \<lparr>ad_step_by_step_analysis = Some (PStr ''analysis''),
      ad_reasoning_summary = Some (PStr ''summary''),
      ad_relevant_pages = Some (Some [3, 3, 9]),
      ad_final_answer = Some (PInt 7),
      ad_references = None,
      ad_error = None\<rparr>"

definition sample_extract :: "pyval \<Rightarrow> exn + string list" where
  "sample_extract q =
     (if q = PStr ''Which of Acme and Bolt earned more?'' then Inr [''Acme'', ''Bolt'']
      else if q = PStr ''What did Acme earn?'' then Inr [''Acme'']
      else Inr [])"

definition sample_collaborators :: collaborators where
  "sample_collaborators =
     \<lparr>extract_companies_from_subset = sample_extract,
      findall_quoted = sample_extract,
      retrieve_all = (\<lambda>company. if company = ''Acme'' then Inr example_passages else Inr []),
      retrieve_by_company_name =
        (\<lambda>company query. if company = ''Acme'' then Inr example_passages else Inr []),
      get_answer_from_rag_context = (\<lambda>question context schema. Inr (sample_answer, PStr ''usage'')),
      get_rephrased_questions = (\<lambda>question companies. Inr (\<lambda>company. Some (PStr company))),
      read_csv = (\<lambda>path. Inr [(''Acme'', ''a1''), (''Bolt'', ''b2'')]),
      format_exc = (\<lambda>err. ''Traceback: '' @ exn_kind err)\<rparr>"

definition sample_config :: config where
  "sample_config =
     \<lparr>new_challenge_pipeline = True, full_context = False, parallel_requests = 2,
      subset_path = Some ''subset.csv''\<rparr>"

definition sample_schedule :: schedule where
  "sample_schedule = \<lparr>worker_order = (\<lambda>start pending. 1), company_order = (\<lambda>question pending. 1)\<rparr>"

definition unknown_question :: question_data where
  "unknown_question =
     \<lparr>q_text = Some (PStr ''Hello''), q_kind = Some (PStr ''number''), q_question = None,
      q_schema = None, q_question_index = None\<rparr>"

definition acme_question :: question_data where
  "acme_question = unknown_question\<lparr>q_text := Some (PStr ''What did Acme earn?'')\<rparr>"

definition comparative_question :: question_data where
  "comparative_question =
     unknown_question\<lparr>q_text := Some (PStr ''Which of Acme and Bolt earned more?'')\<rparr>"

text \<open>Options that write no file, and a list of the three sample questions.\<close>

definition no_output :: output_options where
  "no_output = \<lparr>output_path = None, submission_file = False, opt_team_email = [],
     opt_submission_name = [], pipeline_details = []\<rparr>"

definition sample_questions :: "question_data list" where
  "sample_questions = [acme_question, unknown_question, comparative_question]"

subsection \<open>Notions for the statements about a run\<close>

text \<open>
  The state the constructor leaves, with a ledger of \<open>n\<close> empty slots as
  \<^verbatim>\<open>process_questions_list\<close> preallocates it; and a slot of a ledger that holds a
  detail whose handle names the slot.
\<close>

definition preallocated :: "nat \<Rightarrow> state" where
  "preallocated n = initial_state\<lparr>answer_details := replicate n None\<rparr>"

definition slot_filled :: "answer_detail option list \<Rightarrow> nat \<Rightarrow> bool" where
  "slot_filled ledger i =
     (i < length ledger
      \<and> (case ledger ! i of None \<Rightarrow> False | Some d \<Rightarrow> self d = ref_id (int i)))"

section \<open>Properties of the reference validator\<close>

lemma backfill_extends:
  "\<exists>extra. backfill m rs v e = v @ extra \<and> set extra \<subseteq> page ` set rs"
proof (induction rs arbitrary: v e)
  case Nil
  show ?case by simp
next
  case (Cons r rs)
  obtain x1 where x1: "backfill m rs v e = v @ x1" "set x1 \<subseteq> page ` set rs"
    using Cons.IH by blast
  obtain x2 where x2: "backfill m rs (v @ [page r]) (insert (page r) e) = (v @ [page r]) @ x2"
      "set x2 \<subseteq> page ` set rs"
    using Cons.IH by blast
  show ?case
  proof (cases "page r \<notin> e")
    case False
    then show ?thesis using x1 by auto
  next
    case True
    show ?thesis
    proof (cases "m \<le> int (length (v @ [page r]))")
      case True
      with \<open>page r \<notin> e\<close> have "backfill m (r # rs) v e = v @ [page r]" by simp
      then show ?thesis by auto
    next
      case False
      with \<open>page r \<notin> e\<close> have "backfill m (r # rs) v e = v @ (page r # x2)"
        using x2(1) by simp
      moreover have "set (page r # x2) \<subseteq> page ` set (r # rs)" using x2(2) by auto
      ultimately show ?thesis by blast
    qed
  qed
qed

lemma backfill_reaches:
  "e = set v \<Longrightarrow>
   m \<le> int (length (backfill m rs v e)) \<or> page ` set rs \<subseteq> set (backfill m rs v e)"
proof (induction rs arbitrary: v e)
  case Nil
  show ?case by simp
next
  case (Cons r rs)
  show ?case
  proof (cases "page r \<notin> e")
    case False
    have "set v \<subseteq> set (backfill m rs v e)"
      using backfill_extends [of m rs v e] by auto
    with False Cons.prems Cons.IH [of e v] show ?thesis by auto
  next
    case True
    show ?thesis
    proof (cases "m \<le> int (length (v @ [page r]))")
      case True
      with \<open>page r \<notin> e\<close> show ?thesis by simp
    next
      case False
      have e': "insert (page r) e = set (v @ [page r])" using Cons.prems by simp
      have sub: "set (v @ [page r]) \<subseteq> set (backfill m rs (v @ [page r]) (insert (page r) e))"
        using backfill_extends [of m rs "v @ [page r]" "insert (page r) e"] by auto
      have eq: "backfill m (r # rs) v e = backfill m rs (v @ [page r]) (insert (page r) e)"
        using False \<open>page r \<notin> e\<close> by simp
      from Cons.IH [OF e'] sub show ?thesis unfolding eq by auto
    qed
  qed
qed

lemma claimed_then_backfilled_cases:
  assumes "v = filter (\<lambda>p. p \<in> page ` set rs) (case c of None \<Rightarrow> [] | Some ps \<Rightarrow> ps)"
  shows "claimed_then_backfilled c rs m
           = (if int (length v) < m \<and> rs \<noteq> [] then backfill m rs v (set v) else v)"
  by (simp add: assms claimed_then_backfilled_def Let_def image_def)

lemma claimed_then_backfilled_extends:
  "\<exists>extra. claimed_then_backfilled c rs m
      = filter (\<lambda>p. p \<in> page ` set rs) (case c of None \<Rightarrow> [] | Some ps \<Rightarrow> ps) @ extra
    \<and> set extra \<subseteq> page ` set rs"
proof -
  define v where "v = filter (\<lambda>p. p \<in> page ` set rs) (case c of None \<Rightarrow> [] | Some ps \<Rightarrow> ps)"
  note eq = claimed_then_backfilled_cases [OF v_def, of m]
  show ?thesis
    using backfill_extends [of m rs v "set v"] unfolding v_def [symmetric] eq by auto
qed

lemma claimed_then_backfilled_subset:
  "set (claimed_then_backfilled c rs m) \<subseteq> page ` set rs"
  using claimed_then_backfilled_extends [of c rs m] by auto

lemma claimed_then_backfilled_lower:
  "min m (int (card (page ` set rs))) \<le> int (length (claimed_then_backfilled c rs m))"
proof -
  define v where "v = filter (\<lambda>p. p \<in> page ` set rs) (case c of None \<Rightarrow> [] | Some ps \<Rightarrow> ps)"
  note eq = claimed_then_backfilled_cases [OF v_def, of m]
  show ?thesis
  proof (cases "int (length v) < m \<and> rs \<noteq> []")
    case False
    then have "claimed_then_backfilled c rs m = v" by (simp add: eq)
    moreover have "rs = [] \<Longrightarrow> card (page ` set rs) = 0" by simp
    ultimately show ?thesis using False by auto
  next
    case True
    then have eq': "claimed_then_backfilled c rs m = backfill m rs v (set v)"
      by (simp add: eq)
    from backfill_reaches [where e = "set v" and v = v and m = m and rs = rs, OF refl]
    show ?thesis
    proof
      assume "m \<le> int (length (backfill m rs v (set v)))"
      then show ?thesis unfolding eq' by simp
    next
      assume sub: "page ` set rs \<subseteq> set (backfill m rs v (set v))"
      have "card (page ` set rs) \<le> card (set (backfill m rs v (set v)))"
        by (rule card_mono) (use sub in auto)
      also have "\<dots> \<le> length (backfill m rs v (set v))" by (rule card_length)
      finally show ?thesis unfolding eq' by simp
    qed
  qed
qed

lemma validate_page_references_prefix:
  "0 \<le> max_pages \<Longrightarrow>
   validate_page_references c rs m max_pages
     = take (nat max_pages) (claimed_then_backfilled c rs m)"
  by (simp add: validate_page_references_def Let_def py_slice_to_def)


text \<open>
  C1 (as the code behaves). For the claimed pages \<open>[3, 3, 9]\<close> and any retrieval results
  whose pages are 2, 3, 4 and 5, the validator with the default bounds returns exactly
  \<open>[3, 3]\<close>: page 9 is dropped, both claimed occurrences of page 3 are kept (the
  filter does not remove duplicates among claimed pages), and since two entries remain
  nothing is padded.
\<close>

theorem validate_keeps_claimed_duplicates:
  assumes "page ` set retrieval_results = {2, 3, 4, 5}"
  shows "validate_page_references (Some [3, 3, 9]) retrieval_results
           default_min_pages default_max_pages = [3, 3]"
  using assms
  by (simp add: validate_page_references_def claimed_then_backfilled_def Let_def
      default_min_pages_def default_max_pages_def)

text \<open>The theorem at the sample retrieval results.\<close>

theorem validate_keeps_claimed_duplicates_witness:
  "page ` set example_passages = {2, 3, 4, 5} \<and>
   validate_page_references (Some [3, 3, 9]) example_passages
     default_min_pages default_max_pages = [3, 3]"
proof -
  have h: "page ` set example_passages = {2, 3, 4, 5}"
    by (simp add: example_passages_def)
  show ?thesis using h validate_keeps_claimed_duplicates [OF h] by simp
qed

text \<open>
  The validator's output for \<open>[3, 3, 9]\<close> holds page 3 twice, not once.
\<close>

theorem validate_page_three_twice_counterexample:
  "count_list (validate_page_references (Some [3, 3, 9]) example_passages
     default_min_pages default_max_pages) 3 = 2"
  by (simp add: validate_page_references_def claimed_then_backfilled_def Let_def
      default_min_pages_def default_max_pages_def example_passages_def)

text \<open>
  C10. The validator is total on its edge inputs: \<^verbatim>\<open>None\<close> for the claimed pages gives
  what the empty list gives, and empty retrieval results give the empty list whatever
  the claimed pages and the bounds are.
\<close>

theorem validate_page_references_edge_inputs:
  "validate_page_references None retrieval_results min_pages max_pages
     = validate_page_references (Some []) retrieval_results min_pages max_pages
   \<and> validate_page_references claimed_pages [] min_pages max_pages = []"
  by (simp add: validate_page_references_def claimed_then_backfilled_def Let_def py_slice_to_def)

text \<open>
  C6. For all claimed pages and retrieval results, the validator's output has at most
  \<open>max_pages\<close> entries (for a bound that is not negative), at least
  \<open>min(min_pages, available)\<close> entries, where \<open>available\<close> is the number of distinct
  retrieved pages (whenever that lower bound does not exceed \<open>max_pages\<close>, so that the
  interval is not empty, as with the defaults 2 and 8), and every entry is a retrieved
  page. Ten valid claimed pages with \<open>max_pages = 8\<close> give exactly the first eight of
  them, a prefix of the claimed-then-backfilled list.
\<close>

theorem validate_page_references_clamped:
  "(0 \<le> max_pages \<longrightarrow>
      int (length (validate_page_references claimed_pages retrieval_results min_pages max_pages))
        \<le> max_pages)
   \<and> (min min_pages (int (card (page ` set retrieval_results))) \<le> max_pages \<longrightarrow>
      min min_pages (int (card (page ` set retrieval_results)))
        \<le> int (length (validate_page_references claimed_pages retrieval_results
                          min_pages max_pages)))
   \<and> set (validate_page_references claimed_pages retrieval_results min_pages max_pages)
        \<subseteq> page ` set retrieval_results
   \<and> (length ps = 10 \<and> set ps \<subseteq> page ` set retrieval_results \<longrightarrow>
        length (validate_page_references (Some ps) retrieval_results min_pages 8) = 8
        \<and> validate_page_references (Some ps) retrieval_results min_pages 8 = take 8 ps
        \<and> prefix (validate_page_references (Some ps) retrieval_results min_pages 8)
             (claimed_then_backfilled (Some ps) retrieval_results min_pages))"
proof -
  let ?cb = "claimed_then_backfilled claimed_pages retrieval_results min_pages"
  let ?out = "validate_page_references claimed_pages retrieval_results min_pages max_pages"
  let ?avail = "int (card (page ` set retrieval_results))"
  have upper: "0 \<le> max_pages \<longrightarrow> int (length ?out) \<le> max_pages"
    by (auto simp: validate_page_references_prefix)
  have low_cb: "min min_pages ?avail \<le> int (length ?cb)"
    by (rule claimed_then_backfilled_lower)
  have lower: "min min_pages ?avail \<le> max_pages \<longrightarrow> min min_pages ?avail \<le> int (length ?out)"
  proof
    assume h: "min min_pages ?avail \<le> max_pages"
    show "min min_pages ?avail \<le> int (length ?out)"
    proof (cases "0 \<le> max_pages")
      case True
      then show ?thesis using h low_cb by (auto simp: validate_page_references_prefix)
    next
      case False
      then have "min min_pages ?avail < 0" using h by linarith
      then show ?thesis by linarith
    qed
  qed
  have sub: "set ?out \<subseteq> page ` set retrieval_results"
  proof -
    have "set ?out \<subseteq> set ?cb"
      by (auto simp: validate_page_references_def Let_def py_slice_to_def dest: in_set_takeD)
    then show ?thesis using claimed_then_backfilled_subset by blast
  qed
  have ten: "length ps = 10 \<and> set ps \<subseteq> page ` set retrieval_results \<longrightarrow>
        length (validate_page_references (Some ps) retrieval_results min_pages 8) = 8
        \<and> validate_page_references (Some ps) retrieval_results min_pages 8 = take 8 ps
        \<and> prefix (validate_page_references (Some ps) retrieval_results min_pages 8)
             (claimed_then_backfilled (Some ps) retrieval_results min_pages)"
  proof
    assume h: "length ps = 10 \<and> set ps \<subseteq> page ` set retrieval_results"
    then have "filter (\<lambda>p. p \<in> page ` set retrieval_results) ps = ps" by (auto simp: filter_id_conv)
    with claimed_then_backfilled_extends [of "Some ps" retrieval_results min_pages]
    obtain extra where e: "claimed_then_backfilled (Some ps) retrieval_results min_pages = ps @ extra"
      by auto
    have v: "validate_page_references (Some ps) retrieval_results min_pages 8
               = take 8 (claimed_then_backfilled (Some ps) retrieval_results min_pages)"
      using validate_page_references_prefix [of 8 "Some ps" retrieval_results min_pages] by simp
    have t: "take 8 (ps @ extra) = take 8 ps" using h by simp
    show "length (validate_page_references (Some ps) retrieval_results min_pages 8) = 8
        \<and> validate_page_references (Some ps) retrieval_results min_pages 8 = take 8 ps
        \<and> prefix (validate_page_references (Some ps) retrieval_results min_pages 8)
             (claimed_then_backfilled (Some ps) retrieval_results min_pages)"
      unfolding v using h e t by (simp add: take_is_prefix)
  qed
  from upper lower sub ten show ?thesis by blast
qed


text \<open>The theorem at the default bounds, ten claimed pages and ten retrieved pages.\<close>

theorem validate_page_references_clamped_witness:
  "int (length (validate_page_references (Some [1, 2, 3, 4, 5, 6, 7, 8, 9, 10]) ten_passages 2 8)) \<le> 8
   \<and> min 2 (int (card (page ` set ten_passages)))
        \<le> int (length (validate_page_references (Some [1, 2, 3, 4, 5, 6, 7, 8, 9, 10])
                          ten_passages 2 8))
   \<and> validate_page_references (Some [1, 2, 3, 4, 5, 6, 7, 8, 9, 10]) ten_passages 2 8
        = [1, 2, 3, 4, 5, 6, 7, 8]"
proof -
  have pages: "page ` set ten_passages = {1, 2, 3, 4, 5, 6, 7, 8, 9, 10}"
    by (simp add: ten_passages_def)
  have h1: "(0::int) \<le> 8" by simp
  have h2: "min 2 (int (card (page ` set ten_passages))) \<le> 8" by simp
  have h3: "length [1, 2, 3, 4, 5, 6, 7, 8, 9, 10 :: int] = 10
            \<and> set [1, 2, 3, 4, 5, 6, 7, 8, 9, 10 :: int] \<subseteq> page ` set ten_passages"
    by (simp add: pages)
  show ?thesis
    using h1 h2 h3
      validate_page_references_clamped [of 8 "Some [1, 2, 3, 4, 5, 6, 7, 8, 9, 10]"
        ten_passages 2 "[1, 2, 3, 4, 5, 6, 7, 8, 9, 10]"]
    by simp
qed

section \<open>Integers as text: writing and reading back\<close>

lemma below_ten:
  "d < 10 \<Longrightarrow> d = 0 \<or> d = 1 \<or> d = 2 \<or> d = 3 \<or> d = 4 \<or> d = 5 \<or> d = 6 \<or> d = 7 \<or> d = 8
     \<or> d = (9::nat)"
  by arith

lemma is_digit_digit_char: "d < 10 \<Longrightarrow> is_digit (digit_char d)"
  using below_ten [of d] by (auto simp: is_digit_def digit_char_def)

lemma digit_value_digit_char: "d < 10 \<Longrightarrow> digit_value (digit_char d) = int d"
  using below_ten [of d] by (auto simp: digit_value_def digit_char_def)

lemma str_nat_digits: "list_all is_digit (str_nat n) \<and> str_nat n \<noteq> []"
proof (induction n rule: str_nat.induct)
  case (1 n)
  show ?case
  proof (cases "n < 10")
    case True
    then show ?thesis by (simp add: str_nat.simps [of n] is_digit_digit_char)
  next
    case False
    then show ?thesis using 1 by (simp add: str_nat.simps [of n] is_digit_digit_char)
  qed
qed

lemma digits_value_snoc:
  "is_digit c \<Longrightarrow> digits_value (ds @ [c]) = 10 * digits_value ds + digit_value c"
  by (simp add: digits_value_def)

lemma digits_value_str_nat: "digits_value (str_nat n) = int n"
proof (induction n rule: str_nat.induct)
  case (1 n)
  show ?case
  proof (cases "n < 10")
    case True
    then show ?thesis
      by (simp add: str_nat.simps [of n] digits_value_def is_digit_digit_char digit_value_digit_char)
  next
    case False
    then have "digits_value (str_nat n) = 10 * int (n div 10) + int (n mod 10)"
      using 1 by (simp add: str_nat.simps [of n] digits_value_snoc is_digit_digit_char
          digit_value_digit_char)
    also have "\<dots> = int (10 * (n div 10) + n mod 10)" by (simp only: of_nat_add of_nat_mult of_nat_numeral)
    also have "\<dots> = int n" by (simp only: mult_div_mod_eq)
    finally show ?thesis .
  qed
qed

lemma digits_ok_all_digits:
  "list_all is_digit ds \<Longrightarrow> digits_ok b ds = (b \<or> ds \<noteq> [])"
  by (induction ds arbitrary: b) auto

lemma is_digit_not_space: "is_digit c \<Longrightarrow> \<not> is_space a c"
  by (auto simp: is_digit_def is_space_def)

lemma is_digit_not_sign: "is_digit c \<Longrightarrow> c \<noteq> CHR ''-'' \<and> c \<noteq> CHR ''+'' \<and> c \<noteq> CHR ''/''"
  by (auto simp: is_digit_def)

lemma py_strip_id:
  assumes "s \<noteq> []" "\<not> is_space (is_ascii s) (hd s)" "\<not> is_space (is_ascii s) (last s)"
  shows "py_strip s = s"
proof -
  have 1: "dropWhile (is_space (is_ascii s)) s = s"
    using assms(2) by (simp add: dropWhile_eq_self_iff)
  have "hd (rev s) = last s" using assms(1) by (simp add: hd_rev)
  then have 2: "dropWhile (is_space (is_ascii s)) (rev s) = rev s"
    using assms(3) by (simp add: dropWhile_eq_self_iff)
  show ?thesis by (simp add: py_strip_def 1 2)
qed

lemma py_int_str_nat: "py_int (str_nat n) = Inr (int n)"
proof -
  have d: "list_all is_digit (str_nat n)" "str_nat n \<noteq> []" using str_nat_digits by auto
  then have h: "is_digit (hd (str_nat n))" "is_digit (last (str_nat n))"
    by (auto simp: list_all_iff)
  have strip: "py_strip (str_nat n) = str_nat n"
    by (rule py_strip_id) (use d h is_digit_not_space in auto)
  show ?thesis
    using d h is_digit_not_sign [of "hd (str_nat n)"]
    by (simp add: py_int_def strip Let_def digits_ok_all_digits digits_value_str_nat)
qed

lemma py_int_str_int: "py_int (str_int i) = Inr i"
proof (cases "i < 0")
  case False
  then show ?thesis by (simp add: str_int_def py_int_str_nat)
next
  case True
  let ?s = "CHR ''-'' # str_nat (nat (- i))"
  have d: "list_all is_digit (str_nat (nat (- i)))" "str_nat (nat (- i)) \<noteq> []"
    using str_nat_digits by auto
  then have l: "is_digit (last (str_nat (nat (- i))))" by (auto simp: list_all_iff)
  have "\<not> is_space a (CHR ''-'')" for a by (simp add: is_space_def)
  moreover have "last ?s = last (str_nat (nat (- i)))" using d by simp
  ultimately have strip: "py_strip ?s = ?s"
    using l is_digit_not_space by (intro py_strip_id) auto
  show ?thesis
    using True d
    by (simp add: str_int_def py_int_def strip Let_def digits_ok_all_digits digits_value_str_nat)
qed

lemma py_split_nonempty: "py_split sep s \<noteq> []"
  by (induction s) (auto split: list.splits)

lemma last_py_split_no_sep: "sep \<notin> set t \<Longrightarrow> py_split sep t = [t]"
  by (induction t) (auto split: list.splits)

lemma py_split_two: "py_split sep (xs @ sep # t) \<noteq> [w]"
  by (induction xs arbitrary: w) (auto simp: py_split_nonempty split: list.splits)

lemma last_py_split_append:
  "sep \<notin> set t \<Longrightarrow> last (py_split sep (xs @ sep # t)) = t"
  by (induction xs) (auto simp: last_py_split_no_sep py_split_nonempty py_split_two split: list.splits)

lemma str_int_no_slash: "CHR ''/'' \<notin> set (str_int i)"
proof -
  have "\<And>n. CHR ''/'' \<notin> set (str_nat n)"
    using str_nat_digits is_digit_not_sign by (auto simp: list_all_iff)
  then show ?thesis by (simp add: str_int_def)
qed

lemma py_list_get_last: "xs \<noteq> [] \<Longrightarrow> py_list_get xs (- 1) = Inr (last xs)"
  by (cases xs rule: rev_cases) (auto simp: py_list_get_def py_index_def nth_append)

lemma last_part_ref_id:
  "py_list_get (py_split CHR ''/'' (ref_id i)) (- 1) = Inr (str_int i)"
proof -
  have "ref_id i = ''#/answer_details'' @ CHR ''/'' # str_int i" by (simp add: ref_id_def)
  then have "last (py_split CHR ''/'' (ref_id i)) = str_int i"
    using last_py_split_append [OF str_int_no_slash, of "''#/answer_details''" i] by simp
  then show ?thesis by (simp add: py_list_get_last py_split_nonempty)
qed

lemma prefix_ref_id: "ref_id i \<noteq> [] \<and> prefix ''#/answer_details/'' (ref_id i)"
  by (simp add: ref_id_def)

section \<open>Statistics and the resolution of handles\<close>

lemma sum_list_ones: "sum_list (map (\<lambda>q. 1) xs) = int (length xs)"
  by (induction xs) auto

text \<open>
  C8. For every list of processed results, the statistics that \<^verbatim>\<open>_calculate_statistics\<close>
  computes satisfy \<open>success_count + error_count + na_count = total_questions\<close>, the
  total is the length of the list, and the counts are those of the list given at the
  call (the function reads nothing else). It fails to compute statistics in one case
  only: printing is on and the list is empty.
\<close>

theorem calculate_statistics_counts:
  "(case calculate_statistics processed_questions print_stats of
      Inl e \<Rightarrow> print_stats \<and> processed_questions = [] \<and> e = ZeroDivisionError ''division by zero''
    | Inr stats \<Rightarrow>
        success_count stats + error_count stats + na_count stats = total_questions stats
        \<and> total_questions stats = int (length processed_questions)
        \<and> error_count stats = int (length (filter (\<lambda>q. r_error q \<noteq> None) processed_questions))
        \<and> na_count stats
            = int (length (filter (\<lambda>q. result_value q = PStr ''N/A'') processed_questions)))
   \<and> calculate_statistics processed_questions False
        = Inr \<lparr>total_questions = int (length processed_questions),
               error_count = int (length (filter (\<lambda>q. r_error q \<noteq> None) processed_questions)),
               na_count = int (length (filter (\<lambda>q. result_value q = PStr ''N/A'')
                                         processed_questions)),
               success_count = int (length processed_questions)
                 - int (length (filter (\<lambda>q. r_error q \<noteq> None) processed_questions))
                 - int (length (filter (\<lambda>q. result_value q = PStr ''N/A'')
                                  processed_questions))\<rparr>"
  by (simp add: calculate_statistics_def Let_def sum_list_ones)



lemma py_int_raises: "py_int t = Inl e \<Longrightarrow> exn_kind e = ''ValueError''"
  unfolding py_int_def Let_def ValueError_def by (auto split: if_splits)

lemma py_list_get_raises: "py_list_get xs i = Inl e \<Longrightarrow> exn_kind e = ''IndexError''"
  unfolding py_list_get_def IndexError_def by (auto split: option.splits)

lemma try_resolve_raises:
  "try_resolve ledger ref = Inl e \<Longrightarrow> exn_kind e = ''ValueError'' \<or> exn_kind e = ''IndexError''"
  unfolding try_resolve_def
  by (auto split: sum.splits if_splits option.splits dest: py_int_raises py_list_get_raises)

lemma resolve_never_raises: "\<exists>v. resolve_step_by_step_analysis ledger ref = Inr v"
proof (cases "try_resolve ledger ref")
  case (Inl e)
  then show ?thesis
    using try_resolve_raises [OF Inl] by (auto simp: resolve_step_by_step_analysis_def)
next
  case (Inr v)
  then show ?thesis by (simp add: resolve_step_by_step_analysis_def)
qed


lemma resolve_cases:
  "resolve_step_by_step_analysis ledger ref =
     (if ref \<noteq> [] \<and> prefix ''#/answer_details/'' ref then
        (case py_int (last (py_split CHR ''/'' ref)) of
           Inl e \<Rightarrow> Inr PNone
         | Inr i \<Rightarrow>
             if 0 \<le> i \<and> i < int (length ledger) then
               (case ledger ! nat i of None \<Rightarrow> Inr PNone
                | Some d \<Rightarrow> Inr (get_step_by_step_analysis d))
             else Inr PNone)
      else Inr PNone)"
proof -
  have g: "py_list_get (py_split CHR ''/'' ref) (- 1) = Inr (last (py_split CHR ''/'' ref))"
    by (simp add: py_list_get_last py_split_nonempty)
  have l: "0 \<le> i \<Longrightarrow> i < int (length ledger) \<Longrightarrow> py_list_get ledger i = Inr (ledger ! nat i)"
    for i by (simp add: py_list_get_def py_index_def)
  show ?thesis
  proof (cases "py_int (last (py_split CHR ''/'' ref))")
    case (Inl e)
    then show ?thesis
      using py_int_raises [OF Inl]
      by (simp add: resolve_step_by_step_analysis_def try_resolve_def g)
  next
    case (Inr i)
    then show ?thesis
      by (simp add: resolve_step_by_step_analysis_def try_resolve_def g l split: option.splits)
  qed
qed

text \<open>
  C9 (as the code behaves). Resolving a handle never raises. The result is absent when
  the handle is empty or does not start with \<^verbatim>\<open>#/answer_details/\<close>, when the text
  after its last slash is not an integer literal, when that integer is outside the
  ledger, or when the slot is unfilled; then the submission answer carries no
  \<^verbatim>\<open>reasoning_process\<close>. Every other handle, whatever stands between the prefix and
  the last slash, resolves to the record in the slot that the integer names.
\<close>

theorem resolve_tolerates_bad_handles:
  "(\<exists>v. resolve_step_by_step_analysis ledger ref = Inr v)
   \<and> (ref = [] \<or> \<not> prefix ''#/answer_details/'' ref \<longrightarrow>
        resolve_step_by_step_analysis ledger ref = Inr PNone)
   \<and> (py_int (last (py_split CHR ''/'' ref)) = Inl e \<longrightarrow>
        resolve_step_by_step_analysis ledger ref = Inr PNone)
   \<and> (py_int (last (py_split CHR ''/'' ref)) = Inr i \<and> (i < 0 \<or> int (length ledger) \<le> i) \<longrightarrow>
        resolve_step_by_step_analysis ledger ref = Inr PNone)
   \<and> (py_int (last (py_split CHR ''/'' ref)) = Inr i \<and> 0 \<le> i \<and> i < int (length ledger)
        \<and> ledger ! nat i = None \<longrightarrow>
        resolve_step_by_step_analysis ledger ref = Inr PNone)
   \<and> (\<exists>a. post_process_one ledger q = Inr a
          \<and> (resolve_step_by_step_analysis ledger
                (case r_answer_details q of None \<Rightarrow> [] | Some r \<Rightarrow> r) = Inr PNone \<longrightarrow>
              s_reasoning_process a = None))
   \<and> (ref \<noteq> [] \<and> prefix ''#/answer_details/'' ref
        \<and> py_int (last (py_split CHR ''/'' ref)) = Inr i \<and> 0 \<le> i \<and> i < int (length ledger)
        \<and> ledger ! nat i = Some d \<longrightarrow>
        resolve_step_by_step_analysis ledger ref = Inr (get_step_by_step_analysis d))"
proof -
  have 1: "\<exists>v. resolve_step_by_step_analysis ledger ref = Inr v"
    by (rule resolve_never_raises)
  have 2: "ref = [] \<or> \<not> prefix ''#/answer_details/'' ref \<longrightarrow>
        resolve_step_by_step_analysis ledger ref = Inr PNone"
    by (auto simp: resolve_step_by_step_analysis_def)
  have 3: "py_int (last (py_split CHR ''/'' ref)) = Inl e \<longrightarrow>
        resolve_step_by_step_analysis ledger ref = Inr PNone"
    by (simp add: resolve_cases)
  have 4: "py_int (last (py_split CHR ''/'' ref)) = Inr i \<and> (i < 0 \<or> int (length ledger) \<le> i) \<longrightarrow>
        resolve_step_by_step_analysis ledger ref = Inr PNone"
    by (auto simp: resolve_cases)
  have 5: "py_int (last (py_split CHR ''/'' ref)) = Inr i \<and> 0 \<le> i \<and> i < int (length ledger)
        \<and> ledger ! nat i = None \<longrightarrow>
        resolve_step_by_step_analysis ledger ref = Inr PNone"
    by (simp add: resolve_cases)
  obtain v where v: "resolve_step_by_step_analysis ledger
      (case r_answer_details q of None \<Rightarrow> [] | Some r \<Rightarrow> r) = Inr v"
    using resolve_never_raises by blast
  have 6: "\<exists>a. post_process_one ledger q = Inr a
          \<and> (resolve_step_by_step_analysis ledger
                (case r_answer_details q of None \<Rightarrow> [] | Some r \<Rightarrow> r) = Inr PNone \<longrightarrow>
              s_reasoning_process a = None)"
    by (simp add: post_process_one_def Let_def v)
  have 7: "ref \<noteq> [] \<and> prefix ''#/answer_details/'' ref
        \<and> py_int (last (py_split CHR ''/'' ref)) = Inr i \<and> 0 \<le> i \<and> i < int (length ledger)
        \<and> ledger ! nat i = Some d \<longrightarrow>
        resolve_step_by_step_analysis ledger ref = Inr (get_step_by_step_analysis d)"
    by (simp add: resolve_cases)
  from 1 2 3 4 5 6 7 show ?thesis by blast
qed

lemma str_int_0: "str_int 0 = ''0''"
  by (simp add: str_int_def str_nat.simps digit_char_def)

text \<open>
  A handle that is not of the form \<^verbatim>\<open>#/answer_details/<i>\<close> and still resolves to a
  record: only the text after the last slash is read.
\<close>

theorem resolve_foreign_handle_counterexample:
  "''#/answer_details/x/0'' \<noteq> ref_id 0
   \<and> resolve_step_by_step_analysis [Some sample_detail] ''#/answer_details/x/0''
       = Inr (PStr ''analysis'')"
  by (simp add: resolve_cases sample_detail_def ref_id_def str_int_0 py_int_def py_strip_def
      is_space_def is_ascii_def is_digit_def digits_value_def digit_value_def Let_def)

section \<open>The submission export\<close>

lemma post_process_one_value:
  "\<exists>a. post_process_one ledger q = Inr a
     \<and> s_value a = (if r_error q \<noteq> None then PStr ''N/A'' else result_value q)
     \<and> s_references a =
         (if s_value a = PStr ''N/A'' then []
          else map (\<lambda>ref. \<lparr>pdf_sha1 = pdf_sha1 ref, page_index = page_index ref - 1\<rparr>)
                 (case r_references q of None \<Rightarrow> [] | Some refs \<Rightarrow> refs))"
proof -
  obtain v where v: "resolve_step_by_step_analysis ledger
      (case r_answer_details q of None \<Rightarrow> [] | Some r \<Rightarrow> r) = Inr v"
    using resolve_never_raises by blast
  show ?thesis by (simp add: post_process_one_def Let_def v)
qed

lemma post_process_loop_export:
  "\<exists>out. post_process_loop ledger qs acc = Inr (acc @ out) \<and> length out = length qs
     \<and> (\<forall>i<length qs.
          s_value (out ! i) = (if r_error (qs ! i) \<noteq> None then PStr ''N/A'' else result_value (qs ! i))
          \<and> s_references (out ! i) =
              (if s_value (out ! i) = PStr ''N/A'' then []
               else map (\<lambda>ref. \<lparr>pdf_sha1 = pdf_sha1 ref, page_index = page_index ref - 1\<rparr>)
                      (case r_references (qs ! i) of None \<Rightarrow> [] | Some refs \<Rightarrow> refs)))"
proof (induction qs arbitrary: acc)
  case Nil
  show ?case by simp
next
  case (Cons q qs)
  obtain a where a: "post_process_one ledger q = Inr a"
      "s_value a = (if r_error q \<noteq> None then PStr ''N/A'' else result_value q)"
      "s_references a =
         (if s_value a = PStr ''N/A'' then []
          else map (\<lambda>ref. \<lparr>pdf_sha1 = pdf_sha1 ref, page_index = page_index ref - 1\<rparr>)
                 (case r_references q of None \<Rightarrow> [] | Some refs \<Rightarrow> refs))"
    using post_process_one_value [of ledger q] by blast
  obtain out where out: "post_process_loop ledger qs (acc @ [a]) = Inr ((acc @ [a]) @ out)"
      "length out = length qs"
      "\<forall>i<length qs.
          s_value (out ! i) = (if r_error (qs ! i) \<noteq> None then PStr ''N/A'' else result_value (qs ! i))
          \<and> s_references (out ! i) =
              (if s_value (out ! i) = PStr ''N/A'' then []
               else map (\<lambda>ref. \<lparr>pdf_sha1 = pdf_sha1 ref, page_index = page_index ref - 1\<rparr>)
                      (case r_references (qs ! i) of None \<Rightarrow> [] | Some refs \<Rightarrow> refs))"
    using Cons.IH [of "acc @ [a]"] by blast
  show ?case
  proof (intro exI [of _ "a # out"] conjI allI impI)
    show "post_process_loop ledger (q # qs) acc = Inr (acc @ a # out)"
      using a(1) out(1) by simp
    show "length (a # out) = length (q # qs)" using out(2) by simp
  next
    fix i assume "i < length (q # qs)"
    then show "s_value ((a # out) ! i)
        = (if r_error ((q # qs) ! i) \<noteq> None then PStr ''N/A'' else result_value ((q # qs) ! i))"
      using a(2) out(3) by (cases i) auto
  next
    fix i assume "i < length (q # qs)"
    then show "s_references ((a # out) ! i) =
              (if s_value ((a # out) ! i) = PStr ''N/A'' then []
               else map (\<lambda>ref. \<lparr>pdf_sha1 = pdf_sha1 ref, page_index = page_index ref - 1\<rparr>)
                      (case r_references ((q # qs) ! i) of None \<Rightarrow> [] | Some refs \<Rightarrow> refs))"
      using a(3) out(3) by (cases i) auto
  qed
qed

text \<open>
  C7. The submission export returns one answer per processed question. The value of a
  result with an error is the sentinel \<^verbatim>\<open>N/A\<close>, otherwise the result's own value; an
  answer whose value is the sentinel has no references, whatever the input references
  were; every other answer has the input references with each page index lowered by one.
\<close>

theorem post_process_submission_answers_export:
  "\<exists>out. post_process_submission_answers ledger processed_questions = Inr out
     \<and> length out = length processed_questions
     \<and> (\<forall>i<length processed_questions.
          s_value (out ! i) =
            (if r_error (processed_questions ! i) \<noteq> None then PStr ''N/A''
             else result_value (processed_questions ! i))
          \<and> s_references (out ! i) =
              (if s_value (out ! i) = PStr ''N/A'' then []
               else map (\<lambda>ref. \<lparr>pdf_sha1 = pdf_sha1 ref, page_index = page_index ref - 1\<rparr>)
                      (case r_references (processed_questions ! i) of
                         None \<Rightarrow> [] | Some refs \<Rightarrow> refs)))"
  using post_process_loop_export [of ledger processed_questions "[]"]
  by (simp add: post_process_submission_answers_def)

lemmas py_int_eval = py_int_def py_strip_def is_space_def is_ascii_def is_digit_def
  digits_value_def digit_value_def Let_def

lemma sample_export:
  "post_process_submission_answers [Some sample_detail] [answered_result, na_result, failed_result]
     = Inr [\<lparr>s_question_text = PStr ''q'', s_kind = PStr ''number'', s_value = PInt 7,
             s_references = [\<lparr>pdf_sha1 = ''abc'', page_index = 0\<rparr>],
             s_reasoning_process = Some (PStr ''analysis'')\<rparr>,
            \<lparr>s_question_text = PStr ''q'', s_kind = PStr ''number'', s_value = PStr ''N/A'',
             s_references = [], s_reasoning_process = Some (PStr ''analysis'')\<rparr>,
            \<lparr>s_question_text = PStr ''q'', s_kind = PStr ''number'', s_value = PStr ''N/A'',
             s_references = [], s_reasoning_process = Some (PStr ''analysis'')\<rparr>]"
  by (simp add: post_process_submission_answers_def post_process_one_def resolve_cases
      answered_result_def na_result_def failed_result_def empty_result_def sample_detail_def
      result_value_def dict_get_def py_or_def ref_id_def str_int_0 py_int_eval)

text \<open>
  The theorem at three results: an answered one with a reference to page 1, one whose
  value is the sentinel, and a failed one.
\<close>

theorem post_process_submission_answers_export_witness:
  "\<exists>out. post_process_submission_answers [Some sample_detail]
            [answered_result, na_result, failed_result] = Inr out
     \<and> length out = 3
     \<and> s_value (out ! 0) = PInt 7
     \<and> s_references (out ! 0) = [\<lparr>pdf_sha1 = ''abc'', page_index = 0\<rparr>]
     \<and> s_value (out ! 1) = PStr ''N/A'' \<and> s_references (out ! 1) = []
     \<and> s_value (out ! 2) = PStr ''N/A'' \<and> s_references (out ! 2) = []"
proof -
  obtain out where out:
    "post_process_submission_answers [Some sample_detail]
       [answered_result, na_result, failed_result] = Inr out"
    "length out = length [answered_result, na_result, failed_result]"
    "\<forall>i<length [answered_result, na_result, failed_result].
          s_value (out ! i) =
            (if r_error ([answered_result, na_result, failed_result] ! i) \<noteq> None then PStr ''N/A''
             else result_value ([answered_result, na_result, failed_result] ! i))
          \<and> s_references (out ! i) =
              (if s_value (out ! i) = PStr ''N/A'' then []
               else map (\<lambda>ref. \<lparr>pdf_sha1 = pdf_sha1 ref, page_index = page_index ref - 1\<rparr>)
                      (case r_references ([answered_result, na_result, failed_result] ! i) of
                         None \<Rightarrow> [] | Some refs \<Rightarrow> refs))"
    using post_process_submission_answers_export
      [of "[Some sample_detail]" "[answered_result, na_result, failed_result]"] by blast
  have "0 < length [answered_result, na_result, failed_result]"
       "1 < length [answered_result, na_result, failed_result]"
       "2 < length [answered_result, na_result, failed_result]" by simp_all
  from out(3) [rule_format, OF this(1)] out(3) [rule_format, OF this(2)]
    out(3) [rule_format, OF this(3)] out(1,2)
  show ?thesis
    by (simp add: answered_result_def na_result_def failed_result_def empty_result_def
        result_value_def dict_get_def)
qed

text \<open>The theorem at handles of each kind.\<close>

theorem resolve_tolerates_bad_handles_witness:
  "resolve_step_by_step_analysis [Some sample_detail] [] = Inr PNone
   \<and> resolve_step_by_step_analysis [Some sample_detail] ''answer_details/0'' = Inr PNone
   \<and> resolve_step_by_step_analysis [Some sample_detail] ''#/answer_details/abc'' = Inr PNone
   \<and> resolve_step_by_step_analysis [Some sample_detail] ''#/answer_details/7'' = Inr PNone
   \<and> resolve_step_by_step_analysis [Some sample_detail] ''#/answer_details/-1'' = Inr PNone
   \<and> resolve_step_by_step_analysis [None] ''#/answer_details/0'' = Inr PNone
   \<and> (\<exists>a. post_process_one [None] answered_result = Inr a \<and> s_reasoning_process a = None)
   \<and> resolve_step_by_step_analysis [Some sample_detail] ''#/answer_details/0''
       = Inr (PStr ''analysis'')"
proof -
  have f: "''#/answer_details/0'' \<noteq> [] \<and> prefix ''#/answer_details/'' ''#/answer_details/0''
           \<and> py_int (last (py_split CHR ''/'' ''#/answer_details/0'')) = Inr 0
           \<and> (0::int) \<le> 0 \<and> 0 < int (length [Some sample_detail])
           \<and> [Some sample_detail] ! nat 0 = Some sample_detail"
    by (simp add: py_int_eval)
  have a: "py_int (last (py_split CHR ''/'' ''#/answer_details/abc''))
             = Inl (ValueError ''invalid literal for int() with base 10'')"
    by (simp add: py_int_eval)
  have b: "py_int (last (py_split CHR ''/'' ''#/answer_details/7'')) = Inr 7
           \<and> (7 < (0::int) \<or> int (length [Some sample_detail]) \<le> 7)"
    by (simp add: py_int_eval)
  have c: "py_int (last (py_split CHR ''/'' ''#/answer_details/-1'')) = Inr (- 1)
           \<and> (- 1 < (0::int) \<or> int (length [Some sample_detail]) \<le> - 1)"
    by (simp add: py_int_eval)
  have d: "py_int (last (py_split CHR ''/'' ''#/answer_details/0'')) = Inr 0
           \<and> (0::int) \<le> 0 \<and> 0 < int (length [None :: answer_detail option])
           \<and> [None :: answer_detail option] ! nat 0 = None"
    by (simp add: py_int_eval)
  have e: "resolve_step_by_step_analysis [None]
             (case r_answer_details answered_result of None \<Rightarrow> [] | Some r \<Rightarrow> r) = Inr PNone"
    using d resolve_tolerates_bad_handles [of "[None]" "''#/answer_details/0''" undefined 0 answered_result]
    by (simp add: answered_result_def empty_result_def ref_id_def str_int_0)
  show ?thesis
    using a b c d e
      resolve_tolerates_bad_handles [of "[Some sample_detail]" "[]" undefined 0 answered_result]
      resolve_tolerates_bad_handles [of "[Some sample_detail]" "''answer_details/0''" undefined 0 answered_result]
      resolve_tolerates_bad_handles [of "[Some sample_detail]" "''#/answer_details/abc''"
        "ValueError ''invalid literal for int() with base 10''" 0 answered_result]
      resolve_tolerates_bad_handles [of "[Some sample_detail]" "''#/answer_details/7''" undefined 7 answered_result]
      resolve_tolerates_bad_handles [of "[Some sample_detail]" "''#/answer_details/-1''" undefined "- 1" answered_result]
      resolve_tolerates_bad_handles [of "[None]" "''#/answer_details/0''" undefined 0 answered_result]
      resolve_tolerates_bad_handles [of "[Some sample_detail]" "''#/answer_details/0''" undefined 0
        answered_result sample_detail]
    by (simp add: sample_detail_def)
qed

section \<open>One question: state effects and conversion of exceptions\<close>

subsection \<open>State effects of the answering functions\<close>

lemma get_answer_for_company_result:
  "fst (get_answer_for_company cfg col c q sc s) = fst (get_answer_for_company cfg col c q sc s')"
  by (simp add: get_answer_for_company_def Let_def split: sum.splits prod.splits)

lemma get_answer_for_company_ledger:
  "answer_details (snd (get_answer_for_company cfg col c q sc s)) = answer_details s"
  by (simp add: get_answer_for_company_def Let_def split: sum.splits prod.splits)

lemma get_answer_for_company_response_data:
  "fst (get_answer_for_company cfg col c q sc s) = Inr a \<Longrightarrow>
   response_data (snd (get_answer_for_company cfg col c q sc s)) \<noteq> None"
  by (simp add: get_answer_for_company_def Let_def split: sum.splits prod.splits if_splits)

lemma process_company_question_result:
  "fst (process_company_question cfg col rq c s) = fst (process_company_question cfg col rq c s')"
proof -
  have "fst (process_company_question cfg col rq c t)
      = (if \<not> truthy (dict_get (rq c))
         then Inl (ValueError (''Could not generate sub-question for company: '' @ c))
         else (case fst (get_answer_for_company cfg col c (dict_get (rq c)) (PStr ''number'') t) of
                 Inl e \<Rightarrow> Inl e | Inr a \<Rightarrow> Inr (c, a)))" for t
    by (simp add: process_company_question_def Let_def split: sum.splits prod.splits)
  then show ?thesis
    using get_answer_for_company_result [of cfg col c "dict_get (rq c)" "PStr ''number''" s s']
    by simp
qed

lemma process_company_question_ledger:
  "answer_details (snd (process_company_question cfg col rq c s)) = answer_details s"
proof -
  obtain r s1 where g:
    "get_answer_for_company cfg col c (dict_get (rq c)) (PStr ''number'') s = (r, s1)"
    by (cases "get_answer_for_company cfg col c (dict_get (rq c)) (PStr ''number'') s")
  have "answer_details s1 = answer_details s"
    using get_answer_for_company_ledger [of cfg col c "dict_get (rq c)" "PStr ''number''" s]
    by (simp add: g)
  then show ?thesis
    by (cases r) (simp_all add: process_company_question_def Let_def g)
qed

lemma run_in_order_companies_result:
  "fst (run_in_order (process_company_question cfg col rq) cs order s)
     = map (\<lambda>k. fst (process_company_question cfg col rq (cs ! k) s0)) order"
proof (induction order arbitrary: s)
  case Nil
  show ?case by simp
next
  case (Cons k ks)
  show ?case
    using Cons.IH [of "snd (process_company_question cfg col rq (cs ! k) s)"]
      process_company_question_result [of cfg col rq "cs ! k" s s0]
    by (simp add: split_beta Let_def)
qed

lemma run_in_order_companies_ledger:
  "answer_details (snd (run_in_order (process_company_question cfg col rq) cs order s))
     = answer_details s"
proof (induction order arbitrary: s)
  case Nil
  show ?case by simp
next
  case (Cons k ks)
  show ?case
    using Cons.IH [of "snd (process_company_question cfg col rq (cs ! k) s)"]
      process_company_question_ledger [of cfg col rq "cs ! k" s]
    by (simp add: split_beta Let_def)
qed

lemma process_comparative_question_result:
  "fst (process_comparative_question cfg col sch q cs sc s)
     = fst (process_comparative_question cfg col sch q cs sc s')"
proof (cases "get_rephrased_questions col q cs")
  case (Inl e)
  then show ?thesis by (simp add: process_comparative_question_def)
next
  case (Inr rq)
  let ?order = "completion_order (company_order sch q) (length cs) [0..<length cs]"
  have r: "fst (run_in_order (process_company_question cfg col rq) cs ?order s)
         = fst (run_in_order (process_company_question cfg col rq) cs ?order s')"
    using run_in_order_companies_result [of cfg col rq cs ?order s s']
      run_in_order_companies_result [of cfg col rq cs ?order s' s'] by simp
  show ?thesis
    using r by (simp add: process_comparative_question_def Inr Let_def split_beta
        split: sum.splits prod.splits)
qed

lemma process_comparative_question_ledger:
  "answer_details (snd (process_comparative_question cfg col sch q cs sc s)) = answer_details s"
proof (cases "get_rephrased_questions col q cs")
  case (Inl e)
  then show ?thesis by (simp add: process_comparative_question_def)
next
  case (Inr rq)
  show ?thesis
    using run_in_order_companies_ledger
      [of cfg col rq cs "completion_order (company_order sch q) (length cs) [0..<length cs]" s]
    by (simp add: process_comparative_question_def Inr Let_def split_beta
        split: sum.splits prod.splits)
qed

lemma process_comparative_question_response_data:
  "fst (process_comparative_question cfg col sch q cs sc s) = Inr a \<Longrightarrow>
   response_data (snd (process_comparative_question cfg col sch q cs sc s)) \<noteq> None"
  by (auto simp: process_comparative_question_def Let_def split_beta split: sum.splits)

lemma process_question_result:
  "fst (process_question cfg col sch q sc s) = fst (process_question cfg col sch q sc s')"
  using get_answer_for_company_result process_comparative_question_result
  by (simp add: process_question_def split: sum.splits)

lemma process_question_ledger:
  "answer_details (snd (process_question cfg col sch q sc s)) = answer_details s"
  using get_answer_for_company_ledger process_comparative_question_ledger
  by (simp add: process_question_def split: sum.splits)

lemma process_question_response_data:
  "fst (process_question cfg col sch q sc s) = Inr a \<Longrightarrow>
   response_data (snd (process_question cfg col sch q sc s)) \<noteq> None"
  using get_answer_for_company_response_data process_comparative_question_response_data
  by (auto simp: process_question_def split: sum.splits if_splits)

subsection \<open>Writing the ledger\<close>

lemma py_index_in_range:
  "0 \<le> i \<Longrightarrow> i < int n \<Longrightarrow> py_index n i = Some (nat i)"
  by (simp add: py_index_def)

lemma py_index_bound: "py_index n i = Some j \<Longrightarrow> j < n"
  by (auto simp: py_index_def split: if_splits)

lemma py_list_set_at:
  "py_index (length xs) i = Some j \<Longrightarrow> py_list_set xs i v = Inr (xs[j := v])"
  by (simp add: py_list_set_def)

lemma create_answer_detail_ref_at:
  assumes "py_index (length (answer_details s)) i = Some j" "response_data s = Some rd"
  shows "create_answer_detail_ref a i s =
     (case ad_step_by_step_analysis a of
        None \<Rightarrow> (Inl (KeyError ''step_by_step_analysis''), s)
      | Some sbs \<Rightarrow>
     (case ad_reasoning_summary a of
        None \<Rightarrow> (Inl (KeyError ''reasoning_summary''), s)
      | Some summary \<Rightarrow>
     (case ad_relevant_pages a of
        None \<Rightarrow> (Inl (KeyError ''relevant_pages''), s)
      | Some pages \<Rightarrow>
          (Inr (ref_id i),
           s\<lparr>answer_details :=
               (answer_details s)[j := Some (Detail sbs summary pages rd (ref_id i))]\<rparr>))))"
  using assms
  by (simp add: create_answer_detail_ref_def py_list_set_at split: option.splits)

lemma handle_processing_error_at:
  assumes "py_index (length (answer_details s)) i = Some j"
  shows "handle_processing_error cfg col qt sc err i s =
     (Inr (error_result cfg qt sc err i),
      s\<lparr>answer_details := (answer_details s)[j := Some (error_detail col err i)]\<rparr>)"
  using assms
  by (simp add: handle_processing_error_def py_list_set_at)

subsection \<open>One question\<close>

lemma process_single_question_at:
  assumes "py_index (length (answer_details s)) (question_index_of qd) = Some j"
  shows "\<exists>r d. fst (process_single_question cfg col sch qd s) = Inr r
     \<and> answer_details (snd (process_single_question cfg col sch qd s))
         = (answer_details s)[j := Some d]
     \<and> self d = ref_id (question_index_of qd)
     \<and> r_answer_details r = Some (ref_id (question_index_of qd))
     \<and> (if new_challenge_pipeline cfg then r_question_text r else r_question r)
         = Some (question_text_of cfg qd)"
proof -
  let ?i = "question_index_of qd"
  let ?qt = "question_text_of cfg qd"
  let ?sc = "schema_of cfg qd"
  obtain r0 s1 where pq: "process_question cfg col sch ?qt ?sc s = (r0, s1)"
    by (cases "process_question cfg col sch ?qt ?sc s")
  have l1: "answer_details s1 = answer_details s"
    using process_question_ledger [of cfg col sch ?qt ?sc s] by (simp add: pq)
  have at1: "py_index (length (answer_details s1)) ?i = Some j"
    using assms l1 by simp
  note h = handle_processing_error_at [OF at1]
  show ?thesis
  proof (cases r0)
    case (Inl e)
    then show ?thesis
      by (auto simp: process_single_question_def try_process_single_question_def pq h l1
          error_result_def error_detail_def empty_result_def)
  next
    case (Inr a)
    then obtain rd where rd: "response_data s1 = Some rd"
      using process_question_response_data [of cfg col sch ?qt ?sc s a] by (auto simp: pq)
    note c = create_answer_detail_ref_at [OF at1 rd]
    show ?thesis
      by (auto simp: process_single_question_def try_process_single_question_def pq Inr c h l1
          error_result_def error_detail_def empty_result_def
          split: option.splits)
  qed
qed

lemma process_single_question_result:
  assumes "py_index (length (answer_details s)) (question_index_of qd) = Some j"
      "length (answer_details s') = length (answer_details s)"
  shows "fst (process_single_question cfg col sch qd s)
       = fst (process_single_question cfg col sch qd s')"
proof -
  let ?i = "question_index_of qd"
  let ?qt = "question_text_of cfg qd"
  let ?sc = "schema_of cfg qd"
  obtain r0 s1 where pq: "process_question cfg col sch ?qt ?sc s = (r0, s1)"
    by (cases "process_question cfg col sch ?qt ?sc s")
  obtain r0' s1' where pq': "process_question cfg col sch ?qt ?sc s' = (r0', s1')"
    by (cases "process_question cfg col sch ?qt ?sc s'")
  have same: "r0' = r0"
    using process_question_result [of cfg col sch ?qt ?sc s s'] by (simp add: pq pq')
  have l1: "answer_details s1 = answer_details s"
    using process_question_ledger [of cfg col sch ?qt ?sc s] by (simp add: pq)
  have l1': "answer_details s1' = answer_details s'"
    using process_question_ledger [of cfg col sch ?qt ?sc s'] by (simp add: pq')
  have at1: "py_index (length (answer_details s1)) ?i = Some j"
    using assms l1 by simp
  have at1': "py_index (length (answer_details s1')) ?i = Some j"
    using assms l1' by simp
  note h = handle_processing_error_at [OF at1]
  note h' = handle_processing_error_at [OF at1']
  show ?thesis
  proof (cases r0)
    case (Inl e)
    then show ?thesis
      by (simp add: process_single_question_def try_process_single_question_def pq pq' same h h')
  next
    case (Inr a)
    obtain rd where rd: "response_data s1 = Some rd"
      using process_question_response_data [of cfg col sch ?qt ?sc s a] Inr by (auto simp: pq)
    obtain rd' where rd': "response_data s1' = Some rd'"
      using process_question_response_data [of cfg col sch ?qt ?sc s' a] Inr same
      by (auto simp: pq')
    note c = create_answer_detail_ref_at [OF at1 rd]
    note c' = create_answer_detail_ref_at [OF at1' rd']
    show ?thesis
      by (simp add: process_single_question_def try_process_single_question_def pq pq' same Inr
          c c' h h' split: option.splits)
  qed
qed

lemma try_process_single_question_ledger_on_raise:
  assumes "py_index (length (answer_details s)) i = Some j"
      "try_process_single_question cfg col sch qt sc i s = (Inl err, s1)"
  shows "answer_details s1 = answer_details s"
proof -
  obtain r0 s0 where pq: "process_question cfg col sch qt sc s = (r0, s0)"
    by (cases "process_question cfg col sch qt sc s")
  have l0: "answer_details s0 = answer_details s"
    using process_question_ledger [of cfg col sch qt sc s] by (simp add: pq)
  have at0: "py_index (length (answer_details s0)) i = Some j"
    using assms(1) l0 by simp
  show ?thesis
  proof (cases r0)
    case (Inl e)
    then show ?thesis
      using assms(2) l0 by (simp add: try_process_single_question_def pq)
  next
    case (Inr a)
    obtain rd where rd: "response_data s0 = Some rd"
      using process_question_response_data [of cfg col sch qt sc s a] Inr by (auto simp: pq)
    note c = create_answer_detail_ref_at [OF at0 rd]
    show ?thesis
      using assms(2) l0
      by (auto simp: try_process_single_question_def pq Inr c split: option.splits if_splits)
  qed
qed

lemma process_single_question_catches:
  assumes "py_index (length (answer_details s)) (question_index_of qd) = Some j"
      "try_process_single_question cfg col sch (question_text_of cfg qd) (schema_of cfg qd)
         (question_index_of qd) s = (Inl err, s1)"
  shows "process_single_question cfg col sch qd s =
     (Inr (error_result cfg (question_text_of cfg qd) (schema_of cfg qd) err (question_index_of qd)),
      s1\<lparr>answer_details :=
           (answer_details s)[j := Some (error_detail col err (question_index_of qd))]\<rparr>)"
proof -
  have l1: "answer_details s1 = answer_details s"
    using try_process_single_question_ledger_on_raise [OF assms] .
  have at1: "py_index (length (answer_details s1)) (question_index_of qd) = Some j"
    using assms(1) l1 by simp
  show ?thesis
    by (simp add: process_single_question_def assms(2) handle_processing_error_at [OF at1] l1)
qed

section \<open>Comparative questions and thread pools\<close>

lemma set_without_nth:
  assumes "k < length p"
  shows "insert (p ! k) (set (take k p @ drop (Suc k) p)) = set p"
proof -
  have "set p = set (take k p @ p ! k # drop (Suc k) p)"
    using id_take_nth_drop [OF assms] by (rule arg_cong)
  also have "\<dots> = insert (p ! k) (set (take k p @ drop (Suc k) p))" by simp
  finally show ?thesis by simp
qed

lemma completion_order_set:
  "length p = n \<Longrightarrow> set (completion_order pick n p) = set p"
proof (induction n arbitrary: p)
  case 0
  then show ?case by simp
next
  case (Suc n)
  let ?k = "pick p mod length p"
  have ne: "p \<noteq> []" using Suc.prems by auto
  then have k: "?k < length p" by simp
  have len: "length (take ?k p @ drop (Suc ?k) p) = n" using Suc.prems k by auto
  show ?case
    using Suc.IH [OF len] set_without_nth [OF k] ne by (simp add: Let_def)
qed

lemma nth_first_occurrence:
  "j \<in> set xs \<Longrightarrow>
   length (takeWhile (\<lambda>k. k \<noteq> j) xs) < length xs
   \<and> xs ! length (takeWhile (\<lambda>k. k \<noteq> j) xs) = j"
  by (induction xs) auto


lemma gather_completed_raises:
  "Inl e \<in> set outs \<Longrightarrow> \<forall>e'. Inl e' \<in> set outs \<longrightarrow> e' = e \<Longrightarrow>
   gather_completed outs ia ar = Inl e"
proof (induction outs arbitrary: ia ar)
  case Nil
  then show ?case by simp
next
  case (Cons x outs)
  show ?case
  proof (cases x)
    case (Inl e')
    have "Inl e' \<in> set (x # outs)" using Inl by simp
    then have "e' = e" using Cons.prems(2) by blast
    then show ?thesis using Inl by simp
  next
    case (Inr ca)
    obtain c a where ca: "ca = (c, a)" by (cases ca)
    have 1: "Inl e \<in> set outs" using Cons.prems(1) Inr by auto
    have 2: "\<forall>e'. Inl e' \<in> set outs \<longrightarrow> e' = e" using Cons.prems(2) by auto
    show ?thesis
      unfolding Inr ca gather_completed.simps by (rule Cons.IH [OF 1 2])
  qed
qed


lemma comparative_sub_failure:
  assumes reph: "get_rephrased_questions col q [A, B] = Inr rq"
    and okA: "fst (process_company_question cfg col rq A s) = Inr (A, a)"
    and failB: "fst (process_company_question cfg col rq B s) = Inl err"
  shows "fst (process_comparative_question cfg col sch q [A, B] sc s) = Inl err"
proof -
  define order where
    "order = completion_order (company_order sch q) (length [A, B]) [0..<length [A, B]]"
  define outs where
    "outs = fst (run_in_order (process_company_question cfg col rq) [A, B] order s)"
  have two: "set [0..<length [A, B]] = {0, 1}" by auto
  have so: "set order = {0, 1}"
    unfolding order_def two [symmetric] by (rule completion_order_set) simp
  have outs: "outs = map (\<lambda>k. fst (process_company_question cfg col rq ([A, B] ! k) s)) order"
    unfolding outs_def by (rule run_in_order_companies_result)
  have f0: "fst (process_company_question cfg col rq ([A, B] ! 0) s) = Inr (A, a)"
    using okA by simp
  have f1: "fst (process_company_question cfg col rq ([A, B] ! 1) s) = Inl err"
    using failB by simp
  have "Inl err \<in> (\<lambda>k. fst (process_company_question cfg col rq ([A, B] ! k) s)) ` set order"
    by (rule image_eqI [where x = 1]) (simp_all only: f1 so insert_iff simp_thms)
  then have mem: "Inl err \<in> set outs" unfolding outs set_map .
  have only: "\<forall>e'. Inl e' \<in> set outs \<longrightarrow> e' = err"
  proof (intro allI impI)
    fix e' assume "Inl e' \<in> set outs"
    then obtain k where k: "k \<in> set order"
        "Inl e' = fst (process_company_question cfg col rq ([A, B] ! k) s)"
      unfolding outs set_map by blast
    from k(1) have "k = 0 \<or> k = 1" unfolding so by blast
    then show "e' = err"
    proof
      assume "k = 0"
      then show ?thesis using k(2) f0 by simp
    next
      assume "k = 1"
      then show ?thesis using k(2) f1 by simp
    qed
  qed
  have g: "gather_completed outs [] [] = Inl err"
    by (rule gather_completed_raises [OF mem only])
  show ?thesis
    using g unfolding outs_def order_def
    by (simp add: process_comparative_question_def reph Let_def split_beta)
qed

section \<open>A run over a list of questions\<close>

lemma slot_filled_update:
  "j < length ledger \<Longrightarrow> self d = ref_id (int j) \<Longrightarrow>
   slot_filled ledger i \<or> i = j \<Longrightarrow> slot_filled (ledger[j := Some d]) i"
  by (auto simp: slot_filled_def nth_list_update)

text \<open>A question whose index is a position of a ledger of \<open>n\<close> slots.\<close>

lemma process_single_question_step:
  assumes "0 \<le> question_index_of qd" "question_index_of qd < int n"
      "length (answer_details s) = n"
  shows "\<exists>r. fst (process_single_question cfg col sch qd s) = Inr r
          \<and> fst (process_single_question cfg col sch qd (preallocated n)) = Inr r
          \<and> r_answer_details r = Some (ref_id (question_index_of qd))
          \<and> (if new_challenge_pipeline cfg then r_question_text r else r_question r)
               = Some (question_text_of cfg qd)"
    and "length (answer_details (snd (process_single_question cfg col sch qd s))) = n"
    and "slot_filled (answer_details s) i \<or> i = nat (question_index_of qd) \<Longrightarrow>
         slot_filled (answer_details (snd (process_single_question cfg col sch qd s))) i"
proof -
  have at: "py_index (length (answer_details s)) (question_index_of qd)
              = Some (nat (question_index_of qd))"
    using assms by (simp add: py_index_in_range)
  have len: "length (answer_details (preallocated n)) = length (answer_details s)"
    using assms(3) by (simp add: preallocated_def initial_state_def)
  obtain r d where rd: "fst (process_single_question cfg col sch qd s) = Inr r"
      "answer_details (snd (process_single_question cfg col sch qd s))
         = (answer_details s)[nat (question_index_of qd) := Some d]"
      "self d = ref_id (question_index_of qd)"
      "r_answer_details r = Some (ref_id (question_index_of qd))"
      "(if new_challenge_pipeline cfg then r_question_text r else r_question r)
         = Some (question_text_of cfg qd)"
    using process_single_question_at [OF at, of cfg col sch] by blast
  have same: "fst (process_single_question cfg col sch qd (preallocated n)) = Inr r"
    using process_single_question_result [OF at len, of cfg col sch] rd(1) by simp
  show "\<exists>r. fst (process_single_question cfg col sch qd s) = Inr r
          \<and> fst (process_single_question cfg col sch qd (preallocated n)) = Inr r
          \<and> r_answer_details r = Some (ref_id (question_index_of qd))
          \<and> (if new_challenge_pipeline cfg then r_question_text r else r_question r)
               = Some (question_text_of cfg qd)"
    using rd(1,4,5) same by blast
  show "length (answer_details (snd (process_single_question cfg col sch qd s))) = n"
    using rd(2) assms(3) by simp
  have j: "nat (question_index_of qd) < length (answer_details s)"
    using assms by simp
  have sd: "self d = ref_id (int (nat (question_index_of qd)))"
    using rd(3) assms(1) by simp
  show "slot_filled (answer_details (snd (process_single_question cfg col sch qd s))) i"
    if "slot_filled (answer_details s) i \<or> i = nat (question_index_of qd)"
    unfolding rd(2) using slot_filled_update [OF j sd that] .
qed

lemma run_in_order_questions:
  assumes "\<forall>k\<in>set order. k < length tasks"
      "\<forall>t\<in>set tasks. 0 \<le> question_index_of t \<and> question_index_of t < int n"
      "length (answer_details s) = n"
  shows "fst (run_in_order (process_single_question cfg col sch) tasks order s)
           = map (\<lambda>k. fst (process_single_question cfg col sch (tasks ! k) (preallocated n))) order
       \<and> length (answer_details
             (snd (run_in_order (process_single_question cfg col sch) tasks order s))) = n
       \<and> (\<forall>i. slot_filled (answer_details s) i
                 \<or> i \<in> (\<lambda>k. nat (question_index_of (tasks ! k))) ` set order \<longrightarrow>
               slot_filled (answer_details
                 (snd (run_in_order (process_single_question cfg col sch) tasks order s))) i)"
  using assms
proof (induction order arbitrary: s)
  case Nil
  then show ?case by simp
next
  case (Cons k ks)
  let ?t = "tasks ! k"
  let ?s1 = "snd (process_single_question cfg col sch ?t s)"
  have kt: "?t \<in> set tasks" using Cons.prems(1) by simp
  then have range: "0 \<le> question_index_of ?t" "question_index_of ?t < int n"
    using Cons.prems(2) by auto
  note step = process_single_question_step [OF range Cons.prems(3), where cfg = cfg and col = col and sch = sch]
  have ks: "\<forall>k\<in>set ks. k < length tasks" using Cons.prems(1) by simp
  note IH = Cons.IH [OF ks Cons.prems(2) step(2)]
  have unfold: "run_in_order (process_single_question cfg col sch) tasks (k # ks) s
      = (fst (process_single_question cfg col sch ?t s)
           # fst (run_in_order (process_single_question cfg col sch) tasks ks ?s1),
         snd (run_in_order (process_single_question cfg col sch) tasks ks ?s1))"
    by (simp add: split_beta Let_def)
  have res: "fst (process_single_question cfg col sch ?t s)
           = fst (process_single_question cfg col sch ?t (preallocated n))"
    using step(1) by auto
  have filled: "slot_filled (answer_details
                 (snd (run_in_order (process_single_question cfg col sch) tasks ks ?s1))) i"
    if "slot_filled (answer_details s) i
        \<or> i \<in> (\<lambda>k. nat (question_index_of (tasks ! k))) ` set (k # ks)" for i
  proof -
    from that consider "slot_filled (answer_details s) i \<or> i = nat (question_index_of ?t)"
      | "i \<in> (\<lambda>k. nat (question_index_of (tasks ! k))) ` set ks" by auto
    then show ?thesis
    proof cases
      case 1
      then have "slot_filled (answer_details ?s1) i" by (rule step(3))
      then show ?thesis using IH by blast
    next
      case 2
      then show ?thesis using IH by blast
    qed
  qed
  show ?case
    unfolding unfold using IH res filled by simp
qed

lemma first_raise_none:
  "\<forall>x\<in>set outs. \<exists>r. x = Inr r \<Longrightarrow> \<exists>rs. first_raise outs = Inr rs \<and> map Inr rs = outs"
proof (induction outs)
  case Nil
  then show ?case by simp
next
  case (Cons x outs)
  then obtain r where r: "x = Inr r" by auto
  from Cons obtain rs where rs: "first_raise outs = Inr rs" "map Inr rs = outs" by auto
  show ?case using r rs by auto
qed

lemma executor_map_questions:
  assumes "\<forall>t\<in>set tasks. 0 \<le> question_index_of t \<and> question_index_of t < int n"
      "length (answer_details s) = n"
  shows "fst (executor_map pick (process_single_question cfg col sch) tasks s)
           = map (\<lambda>t. fst (process_single_question cfg col sch t (preallocated n))) tasks
       \<and> length (answer_details
             (snd (executor_map pick (process_single_question cfg col sch) tasks s))) = n
       \<and> (\<forall>i. slot_filled (answer_details s) i
                 \<or> i \<in> (\<lambda>t. nat (question_index_of t)) ` set tasks \<longrightarrow>
               slot_filled (answer_details
                 (snd (executor_map pick (process_single_question cfg col sch) tasks s))) i)"
proof -
  define order where "order = completion_order pick (length tasks) [0..<length tasks]"
  define run where "run = run_in_order (process_single_question cfg col sch) tasks order s"
  have so: "set order = {0..<length tasks}"
    unfolding order_def using completion_order_set [of "[0..<length tasks]" "length tasks" pick]
    by simp
  then have bound: "\<forall>k\<in>set order. k < length tasks" by simp
  note r = run_in_order_questions [OF bound assms, where cfg = cfg and col = col and sch = sch, folded run_def]
  have em: "executor_map pick (process_single_question cfg col sch) tasks s
      = (map (\<lambda>j. fst run ! length (takeWhile (\<lambda>k. k \<noteq> j) order)) [0..<length tasks], snd run)"
    by (simp add: executor_map_def order_def [symmetric] run_def [symmetric] split_beta Let_def)
  have at: "fst run ! length (takeWhile (\<lambda>k. k \<noteq> j) order)
      = fst (process_single_question cfg col sch (tasks ! j) (preallocated n))"
    if "j < length tasks" for j
  proof -
    have "j \<in> set order" using so that by simp
    from nth_first_occurrence [OF this]
    have "length (takeWhile (\<lambda>k. k \<noteq> j) order) < length order"
        "order ! length (takeWhile (\<lambda>k. k \<noteq> j) order) = j" by simp_all
    then show ?thesis using r by simp
  qed
  have results: "map (\<lambda>j. fst run ! length (takeWhile (\<lambda>k. k \<noteq> j) order)) [0..<length tasks]
      = map (\<lambda>t. fst (process_single_question cfg col sch t (preallocated n))) tasks"
    by (rule nth_equalityI) (simp_all add: at)
  have img: "(\<lambda>k. nat (question_index_of (tasks ! k))) ` set order
      = (\<lambda>t. nat (question_index_of t)) ` set tasks"
  proof -
    have "set tasks = (\<lambda>k. tasks ! k) ` {0..<length tasks}"
      by (auto simp: in_set_conv_nth)
    then show ?thesis unfolding so by (simp add: image_image)
  qed
  show ?thesis
    unfolding em using r results img by simp
qed

lemma save_progress_returns:
  "\<exists>s'. save_progress pqs opts s = (Inr (), s') \<and> answer_details s' = answer_details s"
proof -
  obtain stats where st: "calculate_statistics pqs False = Inr stats"
    by (simp add: calculate_statistics_def Let_def)
  obtain out where out: "post_process_submission_answers (answer_details s) pqs = Inr out"
    using post_process_loop_export [of "answer_details s" pqs "[]"]
    by (auto simp: post_process_submission_answers_def)
  show ?thesis
    by (simp add: save_progress_def st out Let_def)
qed

lemma save_step:
  "\<exists>s'. (if path_given (output_path opts) then save_progress pqs opts s else (Inr (), s))
          = (Inr (), s') \<and> answer_details s' = answer_details s"
  using save_progress_returns [of pqs opts s] by auto

lemma sequential_loop_questions:
  assumes "\<forall>t\<in>set tasks. 0 \<le> question_index_of t \<and> question_index_of t < int n"
      "length (answer_details s) = n"
  shows "\<exists>ps s'. sequential_loop cfg col sch opts tasks acc s = (Inr (acc @ ps), s')
       \<and> map Inr ps = map (\<lambda>t. fst (process_single_question cfg col sch t (preallocated n))) tasks
       \<and> length (answer_details s') = n
       \<and> (\<forall>i. slot_filled (answer_details s) i
                 \<or> i \<in> (\<lambda>t. nat (question_index_of t)) ` set tasks \<longrightarrow>
               slot_filled (answer_details s') i)"
  using assms
proof (induction tasks arbitrary: acc s)
  case Nil
  then show ?case by simp
next
  case (Cons t tasks)
  have range: "0 \<le> question_index_of t" "question_index_of t < int n"
    using Cons.prems(1) by auto
  note step = process_single_question_step [OF range Cons.prems(2),
      where cfg = cfg and col = col and sch = sch]
  obtain r where r: "fst (process_single_question cfg col sch t s) = Inr r"
      "fst (process_single_question cfg col sch t (preallocated n)) = Inr r"
    using step(1) by blast
  define s1 where "s1 = snd (process_single_question cfg col sch t s)"
  have p: "process_single_question cfg col sch t s = (Inr r, s1)"
    using r(1) unfolding s1_def by (metis prod.collapse)
  obtain s2 where s2:
    "(if path_given (output_path opts) then save_progress (acc @ [r]) opts s1 else (Inr (), s1))
       = (Inr (), s2)" "answer_details s2 = answer_details s1"
    using save_step [of opts "acc @ [r]" s1] by blast
  have len2: "length (answer_details s2) = n"
    using s2(2) step(2) unfolding s1_def by simp
  have rest: "\<forall>t\<in>set tasks. 0 \<le> question_index_of t \<and> question_index_of t < int n"
    using Cons.prems(1) by simp
  obtain ps s' where ps:
    "sequential_loop cfg col sch opts tasks (acc @ [r]) s2 = (Inr ((acc @ [r]) @ ps), s')"
    "map Inr ps = map (\<lambda>t. fst (process_single_question cfg col sch t (preallocated n))) tasks"
    "length (answer_details s') = n"
    "\<forall>i. slot_filled (answer_details s2) i
           \<or> i \<in> (\<lambda>t. nat (question_index_of t)) ` set tasks \<longrightarrow>
         slot_filled (answer_details s') i"
    using Cons.IH [OF rest len2, of "acc @ [r]"] by blast
  have eq: "sequential_loop cfg col sch opts (t # tasks) acc s = (Inr (acc @ r # ps), s')"
    using p s2(1) ps(1) by (simp add: Let_def)
  have filled: "slot_filled (answer_details s') i"
    if "slot_filled (answer_details s) i
        \<or> i \<in> (\<lambda>t. nat (question_index_of t)) ` set (t # tasks)" for i
  proof -
    from that consider "slot_filled (answer_details s) i \<or> i = nat (question_index_of t)"
      | "i \<in> (\<lambda>t. nat (question_index_of t)) ` set tasks" by auto
    then show ?thesis
    proof cases
      case 1
      then have "slot_filled (answer_details s2) i"
        using step(3) [of i] unfolding s2(2) s1_def by blast
      then show ?thesis using ps(4) by blast
    next
      case 2
      then show ?thesis using ps(4) by blast
    qed
  qed
  show ?case
  proof (intro exI [of _ "r # ps"] exI [of _ s'] conjI allI impI)
    show "sequential_loop cfg col sch opts (t # tasks) acc s = (Inr (acc @ r # ps), s')"
      by (rule eq)
    show "map Inr (r # ps)
        = map (\<lambda>t. fst (process_single_question cfg col sch t (preallocated n))) (t # tasks)"
      using r(2) ps(2) by simp
    show "length (answer_details s') = n" by (rule ps(3))
  next
    fix i assume "slot_filled (answer_details s) i
        \<or> i \<in> (\<lambda>t. nat (question_index_of t)) ` set (t # tasks)"
    then show "slot_filled (answer_details s') i" by (rule filled)
  qed
qed

lemma preallocated_result:
  assumes "0 \<le> question_index_of t" "question_index_of t < int n"
  shows "\<exists>r. fst (process_single_question cfg col sch t (preallocated n)) = Inr r"
proof -
  have "length (answer_details (preallocated n)) = n"
    by (simp add: preallocated_def initial_state_def)
  from process_single_question_step(1) [OF assms this, where cfg = cfg and col = col and sch = sch]
  show ?thesis by blast
qed

lemma batch_loop_questions:
  assumes "\<forall>t\<in>set qwi. 0 \<le> question_index_of t \<and> question_index_of t < int n"
      "length (answer_details s) = n"
  shows "\<exists>ps s'. batch_loop cfg col sch opts qwi P starts acc s = (Inr (acc @ ps), s')
       \<and> map Inr ps = map (\<lambda>t. fst (process_single_question cfg col sch t (preallocated n)))
                         (concat (map (\<lambda>i. take P (drop i qwi)) starts))
       \<and> length (answer_details s') = n
       \<and> (\<forall>i. slot_filled (answer_details s) i
                 \<or> i \<in> (\<lambda>t. nat (question_index_of t))
                         ` set (concat (map (\<lambda>i. take P (drop i qwi)) starts)) \<longrightarrow>
               slot_filled (answer_details s') i)"
  using assms(2)
proof (induction starts arbitrary: acc s)
  case Nil
  then show ?case by simp
next
  case (Cons i0 starts)
  define batch where "batch = take P (drop i0 qwi)"
  have sub: "set batch \<subseteq> set qwi"
    unfolding batch_def by (meson set_take_subset set_drop_subset subset_trans)
  then have range: "\<forall>t\<in>set batch. 0 \<le> question_index_of t \<and> question_index_of t < int n"
    using assms(1) by blast
  define em where
    "em = executor_map (worker_order sch i0) (process_single_question cfg col sch) batch s"
  note e = executor_map_questions [OF range Cons.prems,
      where cfg = cfg and col = col and sch = sch and pick = "worker_order sch i0",
      folded em_def]
  have "\<forall>x\<in>set (fst em). \<exists>r. x = Inr r"
    using e range preallocated_result by (auto simp: image_iff)
  then obtain rs where rs: "first_raise (fst em) = Inr rs" "map Inr rs = fst em"
    using first_raise_none by blast
  obtain s2 where s2:
    "(if path_given (output_path opts) then save_progress (acc @ rs) opts (snd em)
      else (Inr (), snd em)) = (Inr (), s2)" "answer_details s2 = answer_details (snd em)"
    using save_step [of opts "acc @ rs" "snd em"] by blast
  have len2: "length (answer_details s2) = n" using s2(2) e by simp
  obtain ps s' where ps:
    "batch_loop cfg col sch opts qwi P starts (acc @ rs) s2 = (Inr ((acc @ rs) @ ps), s')"
    "map Inr ps = map (\<lambda>t. fst (process_single_question cfg col sch t (preallocated n)))
                    (concat (map (\<lambda>i. take P (drop i qwi)) starts))"
    "length (answer_details s') = n"
    "\<forall>i. slot_filled (answer_details s2) i
           \<or> i \<in> (\<lambda>t. nat (question_index_of t))
                   ` set (concat (map (\<lambda>i. take P (drop i qwi)) starts)) \<longrightarrow>
         slot_filled (answer_details s') i"
    using Cons.IH [OF len2, of "acc @ rs"] by blast
  have eq: "batch_loop cfg col sch opts qwi P (i0 # starts) acc s = (Inr (acc @ rs @ ps), s')"
  proof (cases "path_given (output_path opts)")
    case True
    then have "save_progress (acc @ rs) opts (snd em) = (Inr (), s2)" using s2(1) by simp
    then show ?thesis
      using rs(1) ps(1) True
      by (simp add: batch_def [symmetric] em_def [symmetric] split_beta Let_def)
  next
    case False
    then have "snd em = s2" using s2(1) by simp
    then show ?thesis
      using rs(1) ps(1) False
      by (simp add: batch_def [symmetric] em_def [symmetric] split_beta Let_def)
  qed
  have filled: "slot_filled (answer_details s') i"
    if "slot_filled (answer_details s) i
        \<or> i \<in> (\<lambda>t. nat (question_index_of t))
                ` set (concat (map (\<lambda>i. take P (drop i qwi)) (i0 # starts)))" for i
  proof -
    from that consider
      "slot_filled (answer_details s) i \<or> i \<in> (\<lambda>t. nat (question_index_of t)) ` set batch"
      | "i \<in> (\<lambda>t. nat (question_index_of t))
               ` set (concat (map (\<lambda>i. take P (drop i qwi)) starts))"
      unfolding batch_def by auto
    then show ?thesis
    proof cases
      case 1
      then have "slot_filled (answer_details s2) i" unfolding s2(2) using e by blast
      then show ?thesis using ps(4) by blast
    next
      case 2
      then show ?thesis using ps(4) by blast
    qed
  qed
  show ?case
  proof (intro exI [of _ "rs @ ps"] exI [of _ s'] conjI allI impI)
    show "batch_loop cfg col sch opts qwi P (i0 # starts) acc s = (Inr (acc @ rs @ ps), s')"
      by (rule eq)
    show "map Inr (rs @ ps)
        = map (\<lambda>t. fst (process_single_question cfg col sch t (preallocated n)))
            (concat (map (\<lambda>i. take P (drop i qwi)) (i0 # starts)))"
      using rs(2) e ps(2) by (simp add: batch_def)
    show "length (answer_details s') = n" by (rule ps(3))
  next
    fix i assume "slot_filled (answer_details s) i
        \<or> i \<in> (\<lambda>t. nat (question_index_of t))
                ` set (concat (map (\<lambda>i. take P (drop i qwi)) (i0 # starts)))"
    then show "slot_filled (answer_details s') i" by (rule filled)
  qed
qed

lemma chunks_take:
  "concat (map (\<lambda>k. take P (drop (k * P) xs)) [0..<m]) = take (m * P) xs"
proof (induction m)
  case 0
  show ?case by simp
next
  case (Suc m)
  have "take (m * P + P) xs = take (m * P) xs @ take P (drop (m * P) xs)"
    by (rule take_add)
  then show ?case using Suc by (simp add: add.commute)
qed

lemma chunks_cover: "0 < P \<Longrightarrow> (n::nat) \<le> (n + P - 1) div P * P"
proof -
  assume P: "0 < P"
  have "(n + P - 1) div P * P + (n + P - 1) mod P = n + P - 1" by simp
  moreover have "(n + P - 1) mod P < P" using P by simp
  ultimately show ?thesis by linarith
qed

lemma chunks_concat:
  "0 < P \<Longrightarrow> concat (map (\<lambda>i. take P (drop i xs)) (py_range_step (length xs) P)) = xs"
  using chunks_take [of P xs "(length xs + P - 1) div P"] chunks_cover [of P "length xs"]
  by (simp add: py_range_step_def comp_def)

lemma length_with_index: "length (with_index qs) = length qs"
  by (simp add: with_index_def)

lemma nth_with_index:
  "i < length qs \<Longrightarrow> with_index qs ! i = (qs ! i)\<lparr>q_question_index := Some (int i)\<rparr>"
  by (simp add: with_index_def nth_enumerate_eq)

lemma index_with_index:
  "i < length qs \<Longrightarrow> question_index_of (with_index qs ! i) = int i"
  by (simp add: nth_with_index question_index_of_def)

lemma with_index_in_range:
  "\<forall>t\<in>set (with_index qs). 0 \<le> question_index_of t \<and> question_index_of t < int (length qs)"
proof
  fix t assume "t \<in> set (with_index qs)"
  then obtain i where "i < length qs" "t = with_index qs ! i"
    by (auto simp: in_set_conv_nth length_with_index)
  then show "0 \<le> question_index_of t \<and> question_index_of t < int (length qs)"
    by (simp add: index_with_index)
qed

lemma with_index_covers:
  "i < length qs \<Longrightarrow> i \<in> (\<lambda>t. nat (question_index_of t)) ` set (with_index qs)"
proof -
  assume i: "i < length qs"
  then have "with_index qs ! i \<in> set (with_index qs)" by (simp add: length_with_index)
  moreover have "nat (question_index_of (with_index qs ! i)) = i"
    using i by (simp add: index_with_index)
  ultimately show ?thesis by (metis image_eqI)
qed

lemma process_questions_list_loop:
  "\<exists>ps s'.
     (if parallel_requests cfg \<le> 1
      then sequential_loop cfg col sch opts (with_index qs) [] (s\<lparr>answer_details := replicate (length qs) None\<rparr>)
      else batch_loop cfg col sch opts (with_index qs) (nat (parallel_requests cfg))
             (py_range_step (length qs) (nat (parallel_requests cfg))) [] (s\<lparr>answer_details := replicate (length qs) None\<rparr>))
       = (Inr ps, s')
     \<and> map Inr ps = map (\<lambda>t. fst (process_single_question cfg col sch t
                                     (preallocated (length qs)))) (with_index qs)
     \<and> length (answer_details s') = length qs
     \<and> (\<forall>i<length qs. slot_filled (answer_details s') i)"
proof -
  have len0: "length (answer_details (s\<lparr>answer_details := replicate (length qs) None\<rparr>))
              = length qs" by simp
  show ?thesis
  proof (cases "parallel_requests cfg \<le> 1")
    case True
    from sequential_loop_questions [OF with_index_in_range len0, of cfg col sch opts "[]"]
    obtain ps s' where ps:
      "sequential_loop cfg col sch opts (with_index qs) [] (s\<lparr>answer_details := replicate (length qs) None\<rparr>) = (Inr ([] @ ps), s')"
      "map Inr ps = map (\<lambda>t. fst (process_single_question cfg col sch t
                                    (preallocated (length qs)))) (with_index qs)"
      "length (answer_details s') = length qs"
      "\<forall>i. slot_filled (answer_details (s\<lparr>answer_details := replicate (length qs) None\<rparr>)) i
             \<or> i \<in> (\<lambda>t. nat (question_index_of t)) ` set (with_index qs) \<longrightarrow>
           slot_filled (answer_details s') i"
      by blast
    have "\<forall>i<length qs. slot_filled (answer_details s') i"
      using ps(4) with_index_covers by blast
    then show ?thesis using True ps(1,2,3) by auto
  next
    case False
    then have P: "0 < nat (parallel_requests cfg)" by simp
    have cover: "concat (map (\<lambda>i. take (nat (parallel_requests cfg)) (drop i (with_index qs)))
                   (py_range_step (length qs) (nat (parallel_requests cfg)))) = with_index qs"
      using chunks_concat [OF P, of "with_index qs"] by (simp add: length_with_index)
    from batch_loop_questions [OF with_index_in_range len0, of cfg col sch opts
        "nat (parallel_requests cfg)" "py_range_step (length qs) (nat (parallel_requests cfg))" "[]"]
    obtain ps s' where ps:
      "batch_loop cfg col sch opts (with_index qs) (nat (parallel_requests cfg))
         (py_range_step (length qs) (nat (parallel_requests cfg))) [] (s\<lparr>answer_details := replicate (length qs) None\<rparr>) = (Inr ([] @ ps), s')"
      "map Inr ps = map (\<lambda>t. fst (process_single_question cfg col sch t
                                    (preallocated (length qs)))) (with_index qs)"
      "length (answer_details s') = length qs"
      "\<forall>i. slot_filled (answer_details (s\<lparr>answer_details := replicate (length qs) None\<rparr>)) i
             \<or> i \<in> (\<lambda>t. nat (question_index_of t)) ` set (with_index qs) \<longrightarrow>
           slot_filled (answer_details s') i"
      unfolding cover by blast
    have "\<forall>i<length qs. slot_filled (answer_details s') i"
      using ps(4) with_index_covers by blast
    then show ?thesis using False ps(1,2,3) by auto
  qed
qed

subsection \<open>What one question's processing does not read\<close>

lemma extract_references_config:
  "extract_references (cfg\<lparr>parallel_requests := P\<rparr>) col pages c = extract_references cfg col pages c"
  by (simp add: extract_references_def)

lemma get_answer_for_company_config:
  "get_answer_for_company (cfg\<lparr>parallel_requests := P\<rparr>) col c q sc s
     = get_answer_for_company cfg col c q sc s"
  by (simp add: get_answer_for_company_def extract_references_config Let_def
      split: sum.splits prod.splits)

lemma process_company_question_config:
  "process_company_question (cfg\<lparr>parallel_requests := P\<rparr>) col rq c s
     = process_company_question cfg col rq c s"
  by (simp add: process_company_question_def get_answer_for_company_config Let_def
      split: sum.splits prod.splits)

lemma process_company_question_config_fun:
  "process_company_question (cfg\<lparr>parallel_requests := P\<rparr>) col rq
     = process_company_question cfg col rq"
  by (intro ext) (rule process_company_question_config)

lemma process_comparative_question_config:
  "process_comparative_question (cfg\<lparr>parallel_requests := P\<rparr>) col (sch\<lparr>worker_order := w\<rparr>)
       q cs sc s
     = process_comparative_question cfg col sch q cs sc s"
  by (simp add: process_comparative_question_def process_company_question_config_fun Let_def
      split: sum.splits)

lemma process_question_config:
  "process_question (cfg\<lparr>parallel_requests := P\<rparr>) col (sch\<lparr>worker_order := w\<rparr>) q sc s
     = process_question cfg col sch q sc s"
  by (simp add: process_question_def get_answer_for_company_config
      process_comparative_question_config split: sum.splits)

lemma try_process_single_question_config:
  "try_process_single_question (cfg\<lparr>parallel_requests := P\<rparr>) col (sch\<lparr>worker_order := w\<rparr>)
       qt sc i s
     = try_process_single_question cfg col sch qt sc i s"
  by (simp add: try_process_single_question_def process_question_config Let_def
      split: sum.splits prod.splits)

lemma handle_processing_error_config:
  "handle_processing_error (cfg\<lparr>parallel_requests := P\<rparr>) col qt sc err i s
     = handle_processing_error cfg col qt sc err i s"
  by (simp add: handle_processing_error_def error_result_def split: sum.splits)

lemma process_single_question_config:
  "process_single_question (cfg\<lparr>parallel_requests := P\<rparr>) col (sch\<lparr>worker_order := w\<rparr>) qd s
     = process_single_question cfg col sch qd s"
  by (simp add: process_single_question_def try_process_single_question_config
      handle_processing_error_config question_text_of_def schema_of_def
      split: sum.splits prod.splits)

subsection \<open>The whole run\<close>

lemma process_questions_list_empty:
  "process_questions_list cfg col sch [] opts s
     = (Inl (ZeroDivisionError ''division by zero''), s\<lparr>answer_details := []\<rparr>)"
  by (simp add: process_questions_list_def with_index_def py_range_step_def
      calculate_statistics_def Let_def)

lemma process_questions_list_runs:
  assumes "qs \<noteq> []"
  shows "\<exists>out s'. process_questions_list cfg col sch qs opts s = (Inr out, s')
     \<and> map Inr (questions out)
         = map (\<lambda>t. fst (process_single_question cfg col sch t (preallocated (length qs))))
             (with_index qs)
     \<and> out_answer_details out = answer_details s'
     \<and> length (answer_details s') = length qs
     \<and> (\<forall>i<length qs. slot_filled (answer_details s') i)"
proof -
  obtain ps s' where ps:
    "(if parallel_requests cfg \<le> 1
      then sequential_loop cfg col sch opts (with_index qs) []
             (s\<lparr>answer_details := replicate (length qs) None\<rparr>)
      else batch_loop cfg col sch opts (with_index qs) (nat (parallel_requests cfg))
             (py_range_step (length qs) (nat (parallel_requests cfg))) []
             (s\<lparr>answer_details := replicate (length qs) None\<rparr>))
       = (Inr ps, s')"
    "map Inr ps = map (\<lambda>t. fst (process_single_question cfg col sch t
                                  (preallocated (length qs)))) (with_index qs)"
    "length (answer_details s') = length qs"
    "\<forall>i<length qs. slot_filled (answer_details s') i"
    using process_questions_list_loop [of cfg col sch opts qs s] by blast
  have "length (map Inr ps :: (exn + processed_question) list) = length qs"
    unfolding ps(2) by (simp add: length_with_index)
  then have "ps \<noteq> []" using assms by auto
  then obtain stats where st: "calculate_statistics ps True = Inr stats"
    by (simp add: calculate_statistics_def Let_def)
  have "process_questions_list cfg col sch qs opts s
      = (Inr \<lparr>questions = ps, out_answer_details = answer_details s', out_statistics = stats\<rparr>, s')"
    using ps(1) st by (simp add: process_questions_list_def Let_def)
  then show ?thesis using ps(2,3,4) by simp
qed

lemma process_questions_list_ledger:
  "length (answer_details (snd (process_questions_list cfg col sch qs opts s))) = length qs
   \<and> (\<forall>i<length qs.
         slot_filled (answer_details (snd (process_questions_list cfg col sch qs opts s))) i)"
proof (cases "qs = []")
  case True
  then show ?thesis by (simp add: process_questions_list_empty)
next
  case False
  from process_questions_list_runs [OF False, of cfg col sch opts s]
  show ?thesis by auto
qed

lemma last_py_split_ref_id: "last (py_split CHR ''/'' (ref_id i)) = str_int i"
proof -
  have "ref_id i = ''#/answer_details'' @ CHR ''/'' # str_int i" by (simp add: ref_id_def)
  then show ?thesis
    using last_py_split_append [OF str_int_no_slash, of "''#/answer_details''" i] by simp
qed

lemma resolve_own_handle:
  assumes "i < length ledger" "ledger ! i = Some d"
  shows "resolve_step_by_step_analysis ledger (ref_id (int i)) = Inr (get_step_by_step_analysis d)"
  using assms prefix_ref_id [of "int i"]
  by (simp add: resolve_cases last_py_split_ref_id py_int_str_int)

section \<open>Order of the results, completeness of the ledger, comparative failures\<close>

lemma indexed_result:
  assumes "i < length qs"
  shows "\<exists>r. fst (process_single_question cfg col sch
                  ((qs ! i)\<lparr>q_question_index := Some (int i)\<rparr>) (preallocated (length qs))) = Inr r
     \<and> r_answer_details r = Some (ref_id (int i))
     \<and> (if new_challenge_pipeline cfg then r_question_text r else r_question r)
         = Some (question_text_of cfg (qs ! i))"
proof -
  let ?t = "(qs ! i)\<lparr>q_question_index := Some (int i)\<rparr>"
  have idx: "question_index_of ?t = int i" by (simp add: question_index_of_def)
  have range: "0 \<le> question_index_of ?t" "question_index_of ?t < int (length qs)"
    using assms by (simp_all add: idx)
  have len: "length (answer_details (preallocated (length qs))) = length qs"
    by (simp add: preallocated_def initial_state_def)
  have same_text: "question_text_of cfg ?t = question_text_of cfg (qs ! i)"
    by (simp add: question_text_of_def)
  from process_single_question_step(1) [OF range len, where cfg = cfg and col = col and sch = sch]
  show ?thesis unfolding idx same_text by blast
qed

text \<open>
  C2. On the empty list \<^verbatim>\<open>process_questions_list\<close> returns nothing: the percentage
  print of the statistics raises \<^verbatim>\<open>ZeroDivisionError\<close>. On every non-empty list of
  \<open>N\<close> questions, for every parallelism \<open>P\<close> and every completion order \<open>w\<close> of the
  workers, it returns \<open>N\<close> results, and the \<open>i\<close>-th is the result of processing the
  \<open>i\<close>-th question alone on a fresh ledger of \<open>N\<close> slots (an expression in which
  neither \<open>P\<close> nor \<open>w\<close> occurs); it carries the handle of index \<open>i\<close> and the text of
  the \<open>i\<close>-th question.
\<close>

theorem process_questions_list_order:
  "fst (process_questions_list cfg col sch [] opts s) = Inl (ZeroDivisionError ''division by zero'')
   \<and> (qs \<noteq> [] \<longrightarrow>
       (\<exists>out s'. process_questions_list (cfg\<lparr>parallel_requests := P\<rparr>) col
                    (sch\<lparr>worker_order := w\<rparr>) qs opts s = (Inr out, s')
          \<and> length (questions out) = length qs
          \<and> (\<forall>i<length qs.
                Inr (questions out ! i)
                  = fst (process_single_question cfg col sch
                           ((qs ! i)\<lparr>q_question_index := Some (int i)\<rparr>)
                           (preallocated (length qs)))
                \<and> r_answer_details (questions out ! i) = Some (ref_id (int i))
                \<and> (if new_challenge_pipeline cfg then r_question_text (questions out ! i)
                    else r_question (questions out ! i))
                    = Some (question_text_of cfg (qs ! i)))))"
proof (intro conjI impI)
  show "fst (process_questions_list cfg col sch [] opts s)
      = Inl (ZeroDivisionError ''division by zero'')"
    by (simp add: process_questions_list_empty)
next
  assume ne: "qs \<noteq> []"
  obtain out s' where out:
    "process_questions_list (cfg\<lparr>parallel_requests := P\<rparr>) col (sch\<lparr>worker_order := w\<rparr>)
       qs opts s = (Inr out, s')"
    "map Inr (questions out)
       = map (\<lambda>t. fst (process_single_question (cfg\<lparr>parallel_requests := P\<rparr>) col
                        (sch\<lparr>worker_order := w\<rparr>) t (preallocated (length qs))))
           (with_index qs)"
    using process_questions_list_runs [OF ne, of "cfg\<lparr>parallel_requests := P\<rparr>" col
        "sch\<lparr>worker_order := w\<rparr>" opts s] by blast
  have m: "map Inr (questions out)
       = map (\<lambda>t. fst (process_single_question cfg col sch t (preallocated (length qs))))
           (with_index qs)"
    using out(2) by (simp add: process_single_question_config)
  have len: "length (questions out) = length qs"
    using arg_cong [OF m, of length] by (simp add: length_with_index)
  have each: "Inr (questions out ! i)
       = fst (process_single_question cfg col sch ((qs ! i)\<lparr>q_question_index := Some (int i)\<rparr>)
                (preallocated (length qs)))" if "i < length qs" for i
  proof -
    have "Inr (questions out ! i) = map Inr (questions out) ! i"
      using that len by simp
    also have "\<dots> = fst (process_single_question cfg col sch (with_index qs ! i)
                           (preallocated (length qs)))"
      unfolding m using that by (simp add: length_with_index)
    finally show ?thesis using that by (simp add: nth_with_index)
  qed
  have props: "r_answer_details (questions out ! i) = Some (ref_id (int i))
       \<and> (if new_challenge_pipeline cfg then r_question_text (questions out ! i)
           else r_question (questions out ! i)) = Some (question_text_of cfg (qs ! i))"
    if "i < length qs" for i
    using indexed_result [OF that, of cfg col sch] each [OF that] by auto
  show "\<exists>out s'. process_questions_list (cfg\<lparr>parallel_requests := P\<rparr>) col
                    (sch\<lparr>worker_order := w\<rparr>) qs opts s = (Inr out, s')
          \<and> length (questions out) = length qs
          \<and> (\<forall>i<length qs.
                Inr (questions out ! i)
                  = fst (process_single_question cfg col sch
                           ((qs ! i)\<lparr>q_question_index := Some (int i)\<rparr>)
                           (preallocated (length qs)))
                \<and> r_answer_details (questions out ! i) = Some (ref_id (int i))
                \<and> (if new_challenge_pipeline cfg then r_question_text (questions out ! i)
                    else r_question (questions out ! i))
                    = Some (question_text_of cfg (qs ! i)))"
    using out(1) len each props by blast
qed

text \<open>
  C4. After \<^verbatim>\<open>process_questions_list\<close> has run over \<open>N\<close> questions the ledger has
  exactly \<open>N\<close> entries, every slot holds a record, and the \<^verbatim>\<open>self\<close> handle of the
  record in slot \<open>i\<close> is the handle of index \<open>i\<close>: the text after its last slash is
  the decimal form of \<open>i\<close>, which reads back as \<open>i\<close>, and resolving the handle against
  the ledger reaches this very record. For a non-empty list the returned ledger is this
  ledger.
\<close>

theorem answer_details_complete_after_run:
  "length (answer_details (snd (process_questions_list cfg col sch qs opts s))) = length qs
   \<and> (\<forall>i<length qs.
        \<exists>d. answer_details (snd (process_questions_list cfg col sch qs opts s)) ! i = Some d
          \<and> self d = ref_id (int i)
          \<and> py_list_get (py_split CHR ''/'' (self d)) (- 1) = Inr (str_int (int i))
          \<and> py_int (str_int (int i)) = Inr (int i)
          \<and> resolve_step_by_step_analysis
               (answer_details (snd (process_questions_list cfg col sch qs opts s))) (self d)
              = Inr (get_step_by_step_analysis d))
   \<and> (qs \<noteq> [] \<longrightarrow>
        (\<exists>out. fst (process_questions_list cfg col sch qs opts s) = Inr out
           \<and> out_answer_details out
               = answer_details (snd (process_questions_list cfg col sch qs opts s))))"
proof -
  let ?L = "answer_details (snd (process_questions_list cfg col sch qs opts s))"
  note led = process_questions_list_ledger [of cfg col sch qs opts s]
  have slots: "\<exists>d. ?L ! i = Some d
          \<and> self d = ref_id (int i)
          \<and> py_list_get (py_split CHR ''/'' (self d)) (- 1) = Inr (str_int (int i))
          \<and> py_int (str_int (int i)) = Inr (int i)
          \<and> resolve_step_by_step_analysis ?L (self d) = Inr (get_step_by_step_analysis d)"
    if "i < length qs" for i
  proof -
    have "slot_filled ?L i" using led that by blast
    then obtain d where d: "i < length ?L" "?L ! i = Some d" "self d = ref_id (int i)"
      by (auto simp: slot_filled_def split: option.splits)
    show ?thesis
      using d resolve_own_handle [OF d(1,2)]
      by (simp add: last_part_ref_id py_int_str_int)
  qed
  have ret: "qs \<noteq> [] \<longrightarrow>
        (\<exists>out. fst (process_questions_list cfg col sch qs opts s) = Inr out
           \<and> out_answer_details out = ?L)"
  proof
    assume "qs \<noteq> []"
    from process_questions_list_runs [OF this, of cfg col sch opts s]
    show "\<exists>out. fst (process_questions_list cfg col sch qs opts s) = Inr out
           \<and> out_answer_details out = ?L" by auto
  qed
  show ?thesis using led slots ret by blast
qed

lemma comparative_failure_single:
  assumes ext: "(if new_challenge_pipeline cfg
                 then extract_companies_from_subset col (question_text_of cfg qd)
                 else findall_quoted col (question_text_of cfg qd)) = Inr [A, B]"
    and reph: "get_rephrased_questions col (question_text_of cfg qd) [A, B] = Inr rq"
    and okA: "fst (process_company_question cfg col rq A s) = Inr (A, a)"
    and failB: "fst (process_company_question cfg col rq B s) = Inl err"
    and at: "py_index (length (answer_details s)) (question_index_of qd) = Some j"
  shows "fst (process_single_question cfg col sch qd s)
           = Inr (error_result cfg (question_text_of cfg qd) (schema_of cfg qd) err
                    (question_index_of qd))
       \<and> answer_details (snd (process_single_question cfg col sch qd s))
           = (answer_details s)[j := Some (error_detail col err (question_index_of qd))]"
proof -
  let ?qt = "question_text_of cfg qd"
  let ?sc = "schema_of cfg qd"
  have pq: "process_question cfg col sch ?qt ?sc s
      = process_comparative_question cfg col sch ?qt [A, B] ?sc s"
    using ext by (simp add: process_question_def split: if_splits)
  have "fst (process_question cfg col sch ?qt ?sc s) = Inl err"
    unfolding pq by (rule comparative_sub_failure [OF reph okA failB])
  then obtain s1 where s1: "process_question cfg col sch ?qt ?sc s = (Inl err, s1)"
    by (metis prod.collapse)
  have t: "try_process_single_question cfg col sch ?qt ?sc (question_index_of qd) s = (Inl err, s1)"
    by (simp add: try_process_single_question_def s1)
  show ?thesis
    using process_single_question_catches [OF at t] by simp
qed

text \<open>
  C5. Let a question name the companies \<open>A\<close> and \<open>B\<close>, let the sub-pipeline of \<open>A\<close>
  give an answer and that of \<open>B\<close> raise \<open>err\<close> (in retrieval, in answering, or for
  want of a sub-question). Then, whatever the completion order of the two workers, the
  comparative question raises \<open>err\<close>; \<^verbatim>\<open>_process_single_question\<close> returns the one
  error result of the combined question and writes its error detail; and a run over this
  question alone returns exactly that one result: the answer of \<open>A\<close> appears nowhere.
\<close>

theorem comparative_failure_is_one_error_result:
  assumes ext: "(if new_challenge_pipeline cfg
                 then extract_companies_from_subset col (question_text_of cfg qd)
                 else findall_quoted col (question_text_of cfg qd)) = Inr [A, B]"
    and reph: "get_rephrased_questions col (question_text_of cfg qd) [A, B] = Inr rq"
    and okA: "fst (process_company_question cfg col rq A s) = Inr (A, a)"
    and failB: "fst (process_company_question cfg col rq B s) = Inl err"
  shows "fst (process_comparative_question cfg col sch (question_text_of cfg qd) [A, B]
                (schema_of cfg qd) s) = Inl err
   \<and> (py_index (length (answer_details s)) (question_index_of qd) = Some j \<longrightarrow>
        fst (process_single_question cfg col sch qd s)
          = Inr (error_result cfg (question_text_of cfg qd) (schema_of cfg qd) err
                   (question_index_of qd))
        \<and> answer_details (snd (process_single_question cfg col sch qd s))
            = (answer_details s)[j := Some (error_detail col err (question_index_of qd))])
   \<and> (\<exists>out s'. process_questions_list cfg col sch [qd] opts s = (Inr out, s')
         \<and> questions out
             = [error_result cfg (question_text_of cfg qd) (schema_of cfg qd) err 0])"
proof (intro conjI impI)
  show "fst (process_comparative_question cfg col sch (question_text_of cfg qd) [A, B]
                (schema_of cfg qd) s) = Inl err"
    by (rule comparative_sub_failure [OF reph okA failB])
next
  assume at: "py_index (length (answer_details s)) (question_index_of qd) = Some j"
  from comparative_failure_single [OF ext reph okA failB at, of sch]
  show "fst (process_single_question cfg col sch qd s)
          = Inr (error_result cfg (question_text_of cfg qd) (schema_of cfg qd) err
                   (question_index_of qd))"
    and "answer_details (snd (process_single_question cfg col sch qd s))
            = (answer_details s)[j := Some (error_detail col err (question_index_of qd))]"
    by simp_all
next
  let ?qd0 = "qd\<lparr>q_question_index := Some 0\<rparr>"
  let ?s0 = "preallocated (length [qd])"
  have qt: "question_text_of cfg ?qd0 = question_text_of cfg qd"
    by (simp add: question_text_of_def)
  have sc: "schema_of cfg ?qd0 = schema_of cfg qd"
    by (simp add: schema_of_def)
  have idx: "question_index_of ?qd0 = 0" by (simp add: question_index_of_def)
  have okA0: "fst (process_company_question cfg col rq A ?s0) = Inr (A, a)"
    using okA process_company_question_result [of cfg col rq A ?s0 s] by simp
  have failB0: "fst (process_company_question cfg col rq B ?s0) = Inl err"
    using failB process_company_question_result [of cfg col rq B ?s0 s] by simp
  have at0: "py_index (length (answer_details ?s0)) (question_index_of ?qd0) = Some 0"
    by (simp add: question_index_of_def preallocated_def initial_state_def py_index_def)
  have ext0: "(if new_challenge_pipeline cfg
               then extract_companies_from_subset col (question_text_of cfg ?qd0)
               else findall_quoted col (question_text_of cfg ?qd0)) = Inr [A, B]"
    unfolding qt by (rule ext)
  have reph0: "get_rephrased_questions col (question_text_of cfg ?qd0) [A, B] = Inr rq"
    unfolding qt by (rule reph)
  have single: "fst (process_single_question cfg col sch ?qd0 ?s0)
      = Inr (error_result cfg (question_text_of cfg qd) (schema_of cfg qd) err 0)"
    using comparative_failure_single [OF ext0 reph0 okA0 failB0 at0, of sch]
    unfolding qt sc idx by simp
  have ne: "[qd] \<noteq> []" by simp
  obtain out s' where out: "process_questions_list cfg col sch [qd] opts s = (Inr out, s')"
    "map Inr (questions out)
       = map (\<lambda>t. fst (process_single_question cfg col sch t ?s0)) (with_index [qd])"
    using process_questions_list_runs [OF ne, of cfg col sch opts s] by blast
  have wi: "with_index [qd] = [?qd0]" by (simp add: with_index_def)
  have "map Inr (questions out) = [fst (process_single_question cfg col sch ?qd0 ?s0)]"
    using out(2) unfolding wi by simp
  then have "questions out = [error_result cfg (question_text_of cfg qd) (schema_of cfg qd) err 0]"
    unfolding single by (cases "questions out") auto
  then show "\<exists>out s'. process_questions_list cfg col sch [qd] opts s = (Inr out, s')
         \<and> questions out
             = [error_result cfg (question_text_of cfg qd) (schema_of cfg qd) err 0]"
    using out(1) by blast
qed

text \<open>
  The model at work: the run over the three sample questions, in batches of two, computed
  from the definitions.
\<close>

lemma sample_run:
  "process_questions_list sample_config sample_collaborators sample_schedule sample_questions
     no_output initial_state
   = (Inr \<lparr>questions =
         [empty_result\<lparr>r_question_text := Some (PStr ''What did Acme earn?''),
             r_kind := Some (PStr ''number''), r_value := Some (PInt 7),
             r_references := Some [\<lparr>pdf_sha1 = ''a1'', page_index = 3\<rparr>,
                                   \<lparr>pdf_sha1 = ''a1'', page_index = 3\<rparr>],
             r_answer_details := Some ''#/answer_details/0''\<rparr>,
          empty_result\<lparr>r_question_text := Some (PStr ''Hello''),
             r_kind := Some (PStr ''number''), r_value := Some PNone,
             r_references := Some [],
             r_error := Some (PStr ''ValueError: No company name found in the question.''),
             r_answer_details := Some ''#/answer_details/1''\<rparr>,
          empty_result\<lparr>r_question_text := Some (PStr ''Which of Acme and Bolt earned more?''),
             r_kind := Some (PStr ''number''), r_value := Some PNone,
             r_references := Some [],
             r_error := Some (PStr ''ValueError: No relevant context found''),
             r_answer_details := Some ''#/answer_details/2''\<rparr>],
         out_answer_details =
           [Some (Detail (PStr ''analysis'') (PStr ''summary'') (Some [3, 3])
                    (PStr ''usage'') ''#/answer_details/0''),
            Some (ErrorDetail ''Traceback: ValueError'' ''#/answer_details/1''),
            Some (ErrorDetail ''Traceback: ValueError'' ''#/answer_details/2'')],
         out_statistics =
           \<lparr>total_questions = 3, error_count = 2, na_count = 0, success_count = 1\<rparr>\<rparr>,
      \<lparr>answer_details =
           [Some (Detail (PStr ''analysis'') (PStr ''summary'') (Some [3, 3])
                    (PStr ''usage'') ''#/answer_details/0''),
            Some (ErrorDetail ''Traceback: ValueError'' ''#/answer_details/1''),
            Some (ErrorDetail ''Traceback: ValueError'' ''#/answer_details/2'')],
         response_data = Some (PStr ''usage''), debug_file = None, submission_output = None\<rparr>)"
  by code_simp

lemma ref_id_samples:
  "ref_id 0 = ''#/answer_details/0''" "ref_id 1 = ''#/answer_details/1''"
  "ref_id 2 = ''#/answer_details/2''"
  by (simp_all add: ref_id_def str_int_def str_nat.simps digit_char_def)

text \<open>
  The theorem at the three sample questions, two workers per batch, the second pending
  worker completing first.
\<close>

theorem process_questions_list_order_witness:
  "\<exists>out s'. process_questions_list (sample_config\<lparr>parallel_requests := 2\<rparr>) sample_collaborators
               (sample_schedule\<lparr>worker_order := \<lambda>start pending. 1\<rparr>) sample_questions
               no_output initial_state = (Inr out, s')
     \<and> length (questions out) = 3
     \<and> r_answer_details (questions out ! 0) = Some ''#/answer_details/0''
     \<and> r_answer_details (questions out ! 1) = Some ''#/answer_details/1''
     \<and> r_answer_details (questions out ! 2) = Some ''#/answer_details/2''
     \<and> r_question_text (questions out ! 0) = Some (PStr ''What did Acme earn?'')
     \<and> r_question_text (questions out ! 1) = Some (PStr ''Hello'')
     \<and> r_question_text (questions out ! 2) = Some (PStr ''Which of Acme and Bolt earned more?'')"
proof -
  have ne: "sample_questions \<noteq> []" by (simp add: sample_questions_def)
  have len: "length sample_questions = 3" by (simp add: sample_questions_def)
  from process_questions_list_order [of sample_config sample_collaborators sample_schedule
      no_output initial_state sample_questions 2 "\<lambda>start pending. 1"] ne
  obtain out s' where out:
    "process_questions_list (sample_config\<lparr>parallel_requests := 2\<rparr>) sample_collaborators
       (sample_schedule\<lparr>worker_order := \<lambda>start pending. 1\<rparr>) sample_questions
       no_output initial_state = (Inr out, s')"
    "length (questions out) = length sample_questions"
    "\<forall>i<length sample_questions.
        Inr (questions out ! i)
          = fst (process_single_question sample_config sample_collaborators sample_schedule
                   ((sample_questions ! i)\<lparr>q_question_index := Some (int i)\<rparr>)
                   (preallocated (length sample_questions)))
        \<and> r_answer_details (questions out ! i) = Some (ref_id (int i))
        \<and> (if new_challenge_pipeline sample_config then r_question_text (questions out ! i)
            else r_question (questions out ! i))
            = Some (question_text_of sample_config (sample_questions ! i))"
    by blast
  have "0 < length sample_questions" "1 < length sample_questions" "2 < length sample_questions"
    by (simp_all add: len)
  from out(3) [rule_format, OF this(1)] out(3) [rule_format, OF this(2)]
    out(3) [rule_format, OF this(3)]
  have "r_answer_details (questions out ! 0) = Some ''#/answer_details/0''
     \<and> r_answer_details (questions out ! 1) = Some ''#/answer_details/1''
     \<and> r_answer_details (questions out ! 2) = Some ''#/answer_details/2''
     \<and> r_question_text (questions out ! 0) = Some (PStr ''What did Acme earn?'')
     \<and> r_question_text (questions out ! 1) = Some (PStr ''Hello'')
     \<and> r_question_text (questions out ! 2) = Some (PStr ''Which of Acme and Bolt earned more?'')"
    by (simp add: ref_id_samples sample_config_def sample_questions_def question_text_of_def
        acme_question_def unknown_question_def comparative_question_def dict_get_def)
  then show ?thesis using out(1,2) len by simp
qed

text \<open>The theorem at the run over the three sample questions, for the last slot.\<close>

theorem answer_details_complete_after_run_witness:
  "length (answer_details (snd (process_questions_list sample_config sample_collaborators
             sample_schedule sample_questions no_output initial_state))) = 3
   \<and> (\<exists>d. answer_details (snd (process_questions_list sample_config sample_collaborators
                sample_schedule sample_questions no_output initial_state)) ! 2 = Some d
         \<and> self d = ''#/answer_details/2''
         \<and> py_list_get (py_split CHR ''/'' (self d)) (- 1) = Inr ''2''
         \<and> py_int ''2'' = Inr 2)
   \<and> (\<exists>out. fst (process_questions_list sample_config sample_collaborators
                sample_schedule sample_questions no_output initial_state) = Inr out
         \<and> out_answer_details out
             = answer_details (snd (process_questions_list sample_config sample_collaborators
                 sample_schedule sample_questions no_output initial_state)))"
proof -
  have ne: "sample_questions \<noteq> []" by (simp add: sample_questions_def)
  have len: "length sample_questions = 3" by (simp add: sample_questions_def)
  have two: "2 < length sample_questions" by (simp add: len)
  have s2: "str_int 2 = ''2''"
    by (simp add: str_int_def str_nat.simps digit_char_def)
  note t = answer_details_complete_after_run [of sample_config sample_collaborators
      sample_schedule sample_questions no_output initial_state]
  from t have a: "length (answer_details (snd (process_questions_list sample_config
      sample_collaborators sample_schedule sample_questions no_output initial_state))) = 3"
    by (simp add: len)
  from t two obtain d where d:
    "answer_details (snd (process_questions_list sample_config sample_collaborators
        sample_schedule sample_questions no_output initial_state)) ! 2 = Some d"
    "self d = ref_id (int 2)"
    "py_list_get (py_split CHR ''/'' (self d)) (- 1) = Inr (str_int (int 2))"
    "py_int (str_int (int 2)) = Inr (int 2)"
    by blast
  from t ne obtain out where out:
    "fst (process_questions_list sample_config sample_collaborators
            sample_schedule sample_questions no_output initial_state) = Inr out"
    "out_answer_details out
       = answer_details (snd (process_questions_list sample_config sample_collaborators
           sample_schedule sample_questions no_output initial_state))"
    by blast
  have d': "self d = ''#/answer_details/2''"
      "py_list_get (py_split CHR ''/'' (self d)) (- 1) = Inr ''2''" "py_int ''2'' = Inr 2"
    using d(2,3,4) by (simp_all add: s2 ref_id_samples)
  show ?thesis using a d(1) d' out by blast
qed

lemma sample_acme_answer:
  "fst (process_company_question sample_config sample_collaborators
          (\<lambda>company. Some (PStr company)) ''Acme'' s)
   = Inr (''Acme'',
          sample_answer\<lparr>ad_relevant_pages := Some (Some [3, 3]),
            ad_references := Some [\<lparr>pdf_sha1 = ''a1'', page_index = 3\<rparr>,
                                   \<lparr>pdf_sha1 = ''a1'', page_index = 3\<rparr>]\<rparr>)"
  by (simp add: process_company_question_def get_answer_for_company_def sample_config_def
      sample_collaborators_def sample_answer_def dict_get_def example_passages_def
      validate_page_references_def claimed_then_backfilled_def default_min_pages_def
      default_max_pages_def extract_references_def Let_def)

lemma sample_bolt_fails:
  "fst (process_company_question sample_config sample_collaborators
          (\<lambda>company. Some (PStr company)) ''Bolt'' s)
   = Inl (ValueError ''No relevant context found'')"
  by (simp add: process_company_question_def get_answer_for_company_def sample_config_def
      sample_collaborators_def dict_get_def Let_def)

text \<open>
  The theorem at the sample comparative question, on a ledger of one slot: passages are
  retrieved for the first company and none for the second.
\<close>

theorem comparative_failure_is_one_error_result_witness:
  "fst (process_comparative_question sample_config sample_collaborators sample_schedule
          (PStr ''Which of Acme and Bolt earned more?'') [''Acme'', ''Bolt''] (PStr ''number'')
          (preallocated 1)) = Inl (ValueError ''No relevant context found'')
   \<and> fst (process_single_question sample_config sample_collaborators sample_schedule
            comparative_question (preallocated 1))
       = Inr (empty_result
                \<lparr>r_question_text := Some (PStr ''Which of Acme and Bolt earned more?''),
                 r_kind := Some (PStr ''number''), r_value := Some PNone,
                 r_references := Some [],
                 r_error := Some (PStr ''ValueError: No relevant context found''),
                 r_answer_details := Some ''#/answer_details/0''\<rparr>)
   \<and> answer_details (snd (process_single_question sample_config sample_collaborators
                             sample_schedule comparative_question (preallocated 1)))
       = [Some (ErrorDetail ''Traceback: ValueError'' ''#/answer_details/0'')]
   \<and> (\<exists>out s'. process_questions_list sample_config sample_collaborators sample_schedule
                   [comparative_question] no_output (preallocated 1) = (Inr out, s')
         \<and> questions out =
             [empty_result
                \<lparr>r_question_text := Some (PStr ''Which of Acme and Bolt earned more?''),
                 r_kind := Some (PStr ''number''), r_value := Some PNone,
                 r_references := Some [],
                 r_error := Some (PStr ''ValueError: No relevant context found''),
                 r_answer_details := Some ''#/answer_details/0''\<rparr>])"
proof -
  have np: "new_challenge_pipeline sample_config" by (simp add: sample_config_def)
  have qt: "question_text_of sample_config comparative_question
              = PStr ''Which of Acme and Bolt earned more?''"
    by (simp add: question_text_of_def sample_config_def comparative_question_def dict_get_def)
  have sc: "schema_of sample_config comparative_question = PStr ''number''"
    by (simp add: schema_of_def sample_config_def comparative_question_def
        unknown_question_def dict_get_def)
  have qi: "question_index_of comparative_question = 0"
    by (simp add: question_index_of_def comparative_question_def unknown_question_def)
  have ext: "(if new_challenge_pipeline sample_config
              then extract_companies_from_subset sample_collaborators
                     (question_text_of sample_config comparative_question)
              else findall_quoted sample_collaborators
                     (question_text_of sample_config comparative_question))
             = Inr [''Acme'', ''Bolt'']"
    by (simp add: np qt sample_collaborators_def sample_extract_def)
  have reph: "get_rephrased_questions sample_collaborators
                (question_text_of sample_config comparative_question) [''Acme'', ''Bolt'']
              = Inr (\<lambda>company. Some (PStr company))"
    by (simp add: sample_collaborators_def)
  have at: "py_index (length (answer_details (preallocated 1)))
              (question_index_of comparative_question) = Some 0"
    by (simp add: qi preallocated_def initial_state_def py_index_def)
  note t = comparative_failure_is_one_error_result
    [OF ext reph sample_acme_answer [of "preallocated 1"] sample_bolt_fails [of "preallocated 1"],
     where sch = sample_schedule and j = 0 and opts = no_output, unfolded qt sc qi]
  show ?thesis
    using t at [unfolded qi]
    by (simp add: error_result_def error_detail_def np ValueError_def ref_id_samples
        preallocated_def initial_state_def sample_collaborators_def)
qed

text \<open>
  C3. For a question whose index addresses a slot of the ledger (the ledger is
  preallocated with one slot per question of the run), \<^verbatim>\<open>_process_single_question\<close>
  returns a result and raises nothing. Whatever exception the body of its \<^verbatim>\<open>try\<close>
  raises (a comparative sub-failure included) is converted into the error result, whose
  \<^verbatim>\<open>error\<close> is the exception's class name, a colon and its message, and whose
  references are the empty list (the legacy result has no such key, which reads as the
  empty list); the error detail, with the question's handle, is written at the
  question's slot. Accordingly a run over a non-empty list of questions returns, whatever
  the collaborators raise.
\<close>

theorem process_single_question_converts_exceptions:
  "(py_index (length (answer_details s)) (question_index_of qd) = Some j \<longrightarrow>
      (\<exists>r s'. process_single_question cfg col sch qd s = (Inr r, s'))
      \<and> (try_process_single_question cfg col sch (question_text_of cfg qd) (schema_of cfg qd)
            (question_index_of qd) s = (Inl err, s1) \<longrightarrow>
          process_single_question cfg col sch qd s =
            (Inr (error_result cfg (question_text_of cfg qd) (schema_of cfg qd) err
                    (question_index_of qd)),
             s1\<lparr>answer_details :=
                  (answer_details s)[j := Some (error_detail col err (question_index_of qd))]\<rparr>)))
   \<and> r_error (error_result cfg (question_text_of cfg qd) (schema_of cfg qd) err
                 (question_index_of qd))
       = Some (PStr (exn_kind err @ '': '' @ exn_message err))
   \<and> r_references (error_result cfg (question_text_of cfg qd) (schema_of cfg qd) err
                      (question_index_of qd))
       = (if new_challenge_pipeline cfg then Some [] else None)
   \<and> (case r_references (error_result cfg (question_text_of cfg qd) (schema_of cfg qd) err
                            (question_index_of qd)) of
         None \<Rightarrow> [] | Some refs \<Rightarrow> refs) = []
   \<and> self (error_detail col err (question_index_of qd)) = ref_id (question_index_of qd)
   \<and> (qs \<noteq> [] \<longrightarrow>
        (\<exists>out s'. process_questions_list cfg col sch qs opts s = (Inr out, s')))"
proof -
  have 1: "\<exists>r s'. process_single_question cfg col sch qd s = (Inr r, s')"
    if at: "py_index (length (answer_details s)) (question_index_of qd) = Some j"
    using process_single_question_at [OF at, of cfg col sch]
    by (metis prod.collapse)
  have 2: "process_single_question cfg col sch qd s =
         (Inr (error_result cfg (question_text_of cfg qd) (schema_of cfg qd) err
                 (question_index_of qd)),
          s1\<lparr>answer_details :=
               (answer_details s)[j := Some (error_detail col err (question_index_of qd))]\<rparr>)"
    if at: "py_index (length (answer_details s)) (question_index_of qd) = Some j"
      and t: "try_process_single_question cfg col sch (question_text_of cfg qd) (schema_of cfg qd)
         (question_index_of qd) s = (Inl err, s1)"
    by (rule process_single_question_catches [OF at t])
  have 3: "\<exists>out s'. process_questions_list cfg col sch qs opts s = (Inr out, s')"
    if ne: "qs \<noteq> []"
    using process_questions_list_runs [OF ne, of cfg col sch opts s] by blast
  show ?thesis
    using 1 2 3 by (simp add: error_result_def error_detail_def empty_result_def)
qed

lemma sample_try_raises:
  "try_process_single_question sample_config sample_collaborators sample_schedule
     (question_text_of sample_config unknown_question) (schema_of sample_config unknown_question)
     (question_index_of unknown_question) (initial_state\<lparr>answer_details := [None]\<rparr>)
   = (Inl (ValueError ''No company name found in the question.''),
      initial_state\<lparr>answer_details := [None]\<rparr>)"
  by (simp add: try_process_single_question_def process_question_def sample_config_def
      sample_collaborators_def sample_extract_def question_text_of_def schema_of_def
      unknown_question_def dict_get_def)

text \<open>
  The theorem at a question that names no company, on a ledger of one slot, and at the
  run over the three sample questions.
\<close>

theorem process_single_question_converts_exceptions_witness:
  "process_single_question sample_config sample_collaborators sample_schedule unknown_question
     (initial_state\<lparr>answer_details := [None]\<rparr>)
   = (Inr (empty_result
             \<lparr>r_question_text := Some (PStr ''Hello''), r_kind := Some (PStr ''number''),
              r_value := Some PNone, r_references := Some [],
              r_error := Some (PStr ''ValueError: No company name found in the question.''),
              r_answer_details := Some ''#/answer_details/0''\<rparr>),
      initial_state\<lparr>answer_details :=
        [Some (ErrorDetail ''Traceback: ValueError'' ''#/answer_details/0'')]\<rparr>)
   \<and> (\<exists>out s'. process_questions_list sample_config sample_collaborators sample_schedule
                   sample_questions no_output initial_state = (Inr out, s'))"
proof -
  have h: "py_index (length (answer_details (initial_state\<lparr>answer_details := [None]\<rparr>)))
             (question_index_of unknown_question) = Some 0"
    by (simp add: py_index_def question_index_of_def unknown_question_def)
  have ne: "sample_questions \<noteq> []" by (simp add: sample_questions_def)
  note t = process_single_question_converts_exceptions
    [where s = "initial_state\<lparr>answer_details := [None]\<rparr>" and qd = unknown_question and j = 0
       and cfg = sample_config and col = sample_collaborators and sch = sample_schedule
       and err = "ValueError ''No company name found in the question.''"
       and ?s1.0 = "initial_state\<lparr>answer_details := [None]\<rparr>"
       and qs = sample_questions and opts = no_output]
  have a: "process_single_question sample_config sample_collaborators sample_schedule
      unknown_question (initial_state\<lparr>answer_details := [None]\<rparr>)
    = (Inr (error_result sample_config (question_text_of sample_config unknown_question)
              (schema_of sample_config unknown_question)
              (ValueError ''No company name found in the question.'')
              (question_index_of unknown_question)),
       initial_state\<lparr>answer_details :=
         [None][0 := Some (error_detail sample_collaborators
                            (ValueError ''No company name found in the question.'')
                            (question_index_of unknown_question))]\<rparr>)"
    using t h sample_try_raises by simp
  have c: "\<exists>out s'. process_questions_list sample_config sample_collaborators sample_schedule
                   sample_questions no_output initial_state = (Inr out, s')"
    using process_single_question_converts_exceptions
      [where qs = sample_questions and cfg = sample_config and col = sample_collaborators
         and sch = sample_schedule and opts = no_output and s = initial_state] ne
    by blast
  show ?thesis
    unfolding a using c
    by (simp add: error_result_def error_detail_def sample_config_def sample_collaborators_def
        question_text_of_def schema_of_def question_index_of_def unknown_question_def
        dict_get_def ValueError_def ref_id_def str_int_0 initial_state_def)
qed

end
